theory Spec2Isabelle
  imports Complex_Main
begin

section \<open>Values, thrown errors and the storage collaborator\<close>

text \<open>
  Column values of the relational store. Numbers of the source are integers here:
  the request boundary only lets integers through (\<open>@IsInt\<close> on every numeric DTO field).
\<close>

datatype fval = NullV | IntV int | StrV string

datatype sort_order = ASC | DESC

text \<open>
  What a JavaScript \<open>throw\<close> can carry in this code base:
  \<^item> \<open>Error m\<close>: a plain \<open>new Error(m)\<close>, no \<open>code\<close>, no \<open>constraint\<close>;
  \<^item> \<open>HttpException status m\<close>: Nest's \<open>HttpException\<close> and its subclasses;
  \<^item> \<open>QueryFailedError m code constraint\<close>: the error the database driver raises through
    TypeORM, an \<open>Error\<close> instance that carries the driver's \<open>code\<close> and \<open>constraint\<close>;
  \<^item> \<open>NonError code constraint\<close>: a thrown value that is not an \<open>Error\<close> instance, such as
    the \<open>{ code: '23505' }\<close> of \<open>books.service.spec.ts\<close>.
\<close>

datatype thrown =
    Error string
  | HttpException nat string
  | QueryFailedError string "string option" "string option"
  | NonError "string option" "string option"

fun instanceof_Error :: "thrown \<Rightarrow> bool" where
  "instanceof_Error (NonError _ _) = False"
| "instanceof_Error _ = True"

fun instanceof_HttpException :: "thrown \<Rightarrow> bool" where
  "instanceof_HttpException (HttpException _ _) = True"
| "instanceof_HttpException _ = False"

fun message_of :: "thrown \<Rightarrow> string" where
  "message_of (Error m) = m"
| "message_of (HttpException _ m) = m"
| "message_of (QueryFailedError m _ _) = m"
| "message_of (NonError _ _) = []"

fun code_of :: "thrown \<Rightarrow> string option" where
  "code_of (QueryFailedError _ c _) = c"
| "code_of (NonError c _) = c"
| "code_of _ = None"

fun constraint_of :: "thrown \<Rightarrow> string option" where
  "constraint_of (QueryFailedError _ _ k) = k"
| "constraint_of (NonError _ k) = k"
| "constraint_of _ = None"

definition ConflictException :: "string \<Rightarrow> thrown" where
  "ConflictException m = HttpException 409 m"

definition UnauthorizedException :: "string \<Rightarrow> thrown" where
  "UnauthorizedException m = HttpException 401 m"

definition BadRequestException :: "string \<Rightarrow> thrown" where
  "BadRequestException m = HttpException 400 m"

text \<open>\<open>throwErrorResponse(message, statusCode)\<close> of \<open>response.helper\<close>; the timestamp of the
  response body is real time and is left out.\<close>

definition throwErrorResponse :: "string \<Rightarrow> nat \<Rightarrow> thrown" where
  "throwErrorResponse m statusCode = HttpException statusCode m"

subsection \<open>Query conditions\<close>

text \<open>
  A \<open>FindOptionsWhere\<close> object literal and the \<open>where\<close>/\<open>andWhere\<close> chain of a query builder
  are both a conjunction of conditions on columns.
\<close>

datatype cond =
    Eq string fval
  | ILike string string
  | In string "fval list"
  | Or cond cond

text \<open>\<open>String.prototype.toLowerCase\<close> on ASCII text (a \<open>char\<close> is a byte).\<close>

definition lower_char :: "char \<Rightarrow> char" where
  "lower_char c =
     (let n = (of_char c :: nat) in if 65 \<le> n \<and> n \<le> 90 then char_of (n + 32) else c)"

definition toLowerCase :: "string \<Rightarrow> string" where
  "toLowerCase s = map lower_char s"

text \<open>SQL \<open>LIKE\<close>: \<open>%\<close> matches any run of characters, \<open>_\<close> any single one. The search
  term goes into the pattern as it is, so a \<open>%\<close> or \<open>_\<close> in it is a wildcard too; the escape
  character of the store is left out.\<close>

fun like :: "string \<Rightarrow> string \<Rightarrow> bool" where
  "like [] s = (s = [])"
| "like (p # ps) [] = (p = CHR ''%'' \<and> like ps [])"
| "like (p # ps) (c # cs) =
     (if p = CHR ''%'' then like ps (c # cs) \<or> like (p # ps) cs
      else (p = CHR ''_'' \<or> p = c) \<and> like ps cs)"

definition ilike :: "string \<Rightarrow> string \<Rightarrow> bool" where
  "ilike pat s = like (toLowerCase pat) (toLowerCase s)"

fun holds :: "(string \<Rightarrow> 't \<Rightarrow> fval) \<Rightarrow> cond \<Rightarrow> 't \<Rightarrow> bool" where
  "holds col (Eq f v) x = (v \<noteq> NullV \<and> col f x = v)"
| "holds col (ILike f pat) x = (case col f x of StrV s \<Rightarrow> ilike pat s | _ \<Rightarrow> False)"
| "holds col (In f vs) x = (col f x \<noteq> NullV \<and> col f x \<in> set vs)"
| "holds col (Or a b) x = (holds col a x \<or> holds col b x)"

definition matches :: "(string \<Rightarrow> 't \<Rightarrow> fval) \<Rightarrow> cond list \<Rightarrow> 't \<Rightarrow> bool" where
  "matches col w x = list_all (\<lambda>c. holds col c x) w"

subsection \<open>The repository (TypeORM \<open>Repository<T>\<close> over the relational store)\<close>

text \<open>
  The store is a table of rows in the store's own order. \<open>collation\<close> is the order the
  store puts on column values when a query asks for \<open>ORDER BY\<close>, \<open>uniqueName\<close> the name the
  store gave the entity's unique index. \<open>faults\<close> schedules infrastructure failures: each
  storage call consumes the head, and \<open>Some e\<close> makes that call reject with \<open>e\<close> (what
  \<open>mockRejectedValue\<close> does in the test suites). \<open>calls\<close> logs every storage call with the
  conditions it was given.
\<close>

record 't repository =
  rows :: "'t list"
  nextId :: int
  collation :: "fval \<Rightarrow> fval \<Rightarrow> bool"
  uniqueName :: string
  faults :: "thrown option list"
  calls :: "(string \<times> cond list) list"

text \<open>
  The entity metadata the generic service works from: \<open>column\<close> reads a column by name
  (the primary key is the column \<open>id\<close>), \<open>build\<close> makes the row that an insert of partial
  data stores under a generated id (\<open>None\<close>: a \<open>NOT NULL\<close> column is missing), \<open>assign\<close> is the \<open>SET\<close> clause
  of an update, and \<open>collides\<close> says when two rows violate the entity's unique index.
\<close>

record ('t, 'p) entity_meta =
  column :: "string \<Rightarrow> 't \<Rightarrow> fval"
  build :: "int \<Rightarrow> 'p \<Rightarrow> 't option"
  assign :: "'p \<Rightarrow> 't \<Rightarrow> 't"
  collides :: "'t \<Rightarrow> 't \<Rightarrow> bool"

record find_options =
  fo_where :: "cond list"
  fo_order :: "(string \<times> sort_order) option"
  fo_take :: "int option"
  fo_skip :: "int option"

definition no_options :: find_options where
  "no_options = \<lparr>fo_where = [], fo_order = None, fo_take = None, fo_skip = None\<rparr>"

type_synonym ('r, 't) outcome = "(thrown + 'r) \<times> 't repository"

definition storage_call ::
  "string \<Rightarrow> cond list \<Rightarrow> 't repository \<Rightarrow> thrown option \<times> 't repository" where
  "storage_call name w r =
     (case faults r of
        [] \<Rightarrow> (None, r\<lparr>calls := calls r @ [(name, w)]\<rparr>)
      | f # fs \<Rightarrow> (f, r\<lparr>faults := fs, calls := calls r @ [(name, w)]\<rparr>))"

text \<open>\<open>ORDER BY\<close>: a stable sort of the rows found, by the store's order on the column.\<close>

fun insert_by :: "('t \<Rightarrow> 't \<Rightarrow> bool) \<Rightarrow> 't \<Rightarrow> 't list \<Rightarrow> 't list" where
  "insert_by le x [] = [x]"
| "insert_by le x (y # ys) = (if le x y then x # y # ys else y # insert_by le x ys)"

definition sort_by :: "('t \<Rightarrow> 't \<Rightarrow> bool) \<Rightarrow> 't list \<Rightarrow> 't list" where
  "sort_by le xs = foldr (insert_by le) xs []"

fun order_rows :: "(fval \<Rightarrow> fval \<Rightarrow> bool) \<Rightarrow> ('t \<Rightarrow> fval) \<Rightarrow> sort_order \<Rightarrow> 't list \<Rightarrow> 't list" where
  "order_rows le key ASC xs = sort_by (\<lambda>x y. le (key x) (key y)) xs"
| "order_rows le key DESC xs = sort_by (\<lambda>x y. le (key y) (key x)) xs"

definition select_rows :: "('t, 'p) entity_meta \<Rightarrow> find_options \<Rightarrow> 't repository \<Rightarrow> 't list" where
  "select_rows E opts r =
     (let found = filter (matches (column E) (fo_where opts)) (rows r);
          ordered = (case fo_order opts of
                       None \<Rightarrow> found
                     | Some (f, d) \<Rightarrow> order_rows (collation r) (column E f) d found);
          skipped = (case fo_skip opts of None \<Rightarrow> ordered | Some k \<Rightarrow> drop (nat k) ordered)
      in case fo_take opts of None \<Rightarrow> skipped | Some k \<Rightarrow> take (nat k) skipped)"

definition repo_findAndCount ::
  "('t, 'p) entity_meta \<Rightarrow> find_options \<Rightarrow> 't repository \<Rightarrow> ('t list \<times> int, 't) outcome" where
  "repo_findAndCount E opts r =
     (case storage_call ''findAndCount'' (fo_where opts) r of
        (Some e, r') \<Rightarrow> (Inl e, r')
      | (None, r') \<Rightarrow>
          (Inr (select_rows E opts r',
                int (length (filter (matches (column E) (fo_where opts)) (rows r')))), r'))"

definition repo_findOneBy ::
  "('t, 'p) entity_meta \<Rightarrow> cond list \<Rightarrow> 't repository \<Rightarrow> ('t option, 't) outcome" where
  "repo_findOneBy E w r =
     (case storage_call ''findOneBy'' w r of
        (Some e, r') \<Rightarrow> (Inl e, r')
      | (None, r') \<Rightarrow> (Inr (find (matches (column E) w) (rows r')), r'))"

definition repo_findOne ::
  "('t, 'p) entity_meta \<Rightarrow> find_options \<Rightarrow> 't repository \<Rightarrow> ('t option, 't) outcome" where
  "repo_findOne E opts r =
     (case storage_call ''findOne'' (fo_where opts) r of
        (Some e, r') \<Rightarrow> (Inl e, r')
      | (None, r') \<Rightarrow>
          (Inr (case select_rows E opts r' of [] \<Rightarrow> None | x # _ \<Rightarrow> Some x), r'))"

definition repo_find ::
  "('t, 'p) entity_meta \<Rightarrow> find_options \<Rightarrow> 't repository \<Rightarrow> ('t list, 't) outcome" where
  "repo_find E opts r =
     (case storage_call ''find'' (fo_where opts) r of
        (Some e, r') \<Rightarrow> (Inl e, r')
      | (None, r') \<Rightarrow> (Inr (select_rows E opts r'), r'))"

definition repo_findBy ::
  "('t, 'p) entity_meta \<Rightarrow> cond list \<Rightarrow> 't repository \<Rightarrow> ('t list, 't) outcome" where
  "repo_findBy E w r =
     (case storage_call ''findBy'' w r of
        (Some e, r') \<Rightarrow> (Inl e, r')
      | (None, r') \<Rightarrow> (Inr (filter (matches (column E) w) (rows r')), r'))"

text \<open>\<open>createQueryBuilder(...).where(...).andWhere(...).getMany()\<close>.\<close>

definition repo_getMany ::
  "('t, 'p) entity_meta \<Rightarrow> cond list \<Rightarrow> 't repository \<Rightarrow> ('t list, 't) outcome" where
  "repo_getMany E w r =
     (case storage_call ''getMany'' w r of
        (Some e, r') \<Rightarrow> (Inl e, r')
      | (None, r') \<Rightarrow> (Inr (filter (matches (column E) w) (rows r')), r'))"

definition repo_count ::
  "('t, 'p) entity_meta \<Rightarrow> cond list \<Rightarrow> 't repository \<Rightarrow> (int, 't) outcome" where
  "repo_count E w r =
     (case storage_call ''count'' w r of
        (Some e, r') \<Rightarrow> (Inl e, r')
      | (None, r') \<Rightarrow> (Inr (int (length (filter (matches (column E) w) (rows r')))), r'))"

definition quote :: "string \<Rightarrow> string" where
  "quote s = CHR 0x22 # s @ [CHR 0x22]"

definition unique_violation :: "string \<Rightarrow> thrown" where
  "unique_violation name =
     QueryFailedError (''duplicate key value violates unique constraint '' @ quote name)
       (Some ''23505'') (Some name)"

definition not_null_violation :: thrown where
  "not_null_violation =
     QueryFailedError ''null value violates not-null constraint'' (Some ''23502'') None"

text \<open>Inserting one row of partial data: the id comes from the sequence, which advances
  whether or not the insert passes the constraints.\<close>

definition insert_row ::
  "('t, 'p) entity_meta \<Rightarrow> 'p \<Rightarrow> 't repository \<Rightarrow> ('t, 't) outcome" where
  "insert_row E d r =
     (let r' = r\<lparr>nextId := nextId r + 1\<rparr> in
      case build E (nextId r) d of
        None \<Rightarrow> (Inl not_null_violation, r')
      | Some x \<Rightarrow>
          if list_ex (collides E x) (rows r) then (Inl (unique_violation (uniqueName r)), r')
          else (Inr x, r'\<lparr>rows := rows r @ [x]\<rparr>))"

text \<open>\<open>repository.save(repository.create(data))\<close>.\<close>

definition repo_save ::
  "('t, 'p) entity_meta \<Rightarrow> 'p \<Rightarrow> 't repository \<Rightarrow> ('t, 't) outcome" where
  "repo_save E d r =
     (case storage_call ''save'' [] r of
        (Some e, r') \<Rightarrow> (Inl e, r')
      | (None, r') \<Rightarrow> insert_row E d r')"

fun insert_rows ::
  "('t, 'p) entity_meta \<Rightarrow> 'p list \<Rightarrow> 't repository \<Rightarrow> ('t list, 't) outcome" where
  "insert_rows E [] r = (Inr [], r)"
| "insert_rows E (d # ds) r =
     (case insert_row E d r of
        (Inl e, r') \<Rightarrow> (Inl e, r')
      | (Inr x, r') \<Rightarrow>
          (case insert_rows E ds r' of
             (Inl e, r'') \<Rightarrow> (Inl e, r'')
           | (Inr xs, r'') \<Rightarrow> (Inr (x # xs), r'')))"

text \<open>\<open>repository.save(entities)\<close> on an array runs in one transaction: a failing row
  leaves the table as it was.\<close>

definition repo_save_all ::
  "('t, 'p) entity_meta \<Rightarrow> 'p list \<Rightarrow> 't repository \<Rightarrow> ('t list, 't) outcome" where
  "repo_save_all E ds r =
     (case storage_call ''save'' [] r of
        (Some e, r') \<Rightarrow> (Inl e, r')
      | (None, r') \<Rightarrow>
          (case insert_rows E ds r' of
             (Inl e, r'') \<Rightarrow> (Inl e, r''\<lparr>rows := rows r'\<rparr>)
           | (Inr xs, r'') \<Rightarrow> (Inr xs, r'')))"

fun unique_ok :: "('t, 'p) entity_meta \<Rightarrow> 't list \<Rightarrow> bool" where
  "unique_ok E [] = True"
| "unique_ok E (x # xs) = (\<not> list_ex (collides E x) xs \<and> unique_ok E xs)"

text \<open>\<open>repository.update(criteria, data)\<close>: the result is the number of rows affected.\<close>

definition repo_update ::
  "('t, 'p) entity_meta \<Rightarrow> cond list \<Rightarrow> 'p \<Rightarrow> 't repository \<Rightarrow> (int, 't) outcome" where
  "repo_update E w d r =
     (case storage_call ''update'' w r of
        (Some e, r') \<Rightarrow> (Inl e, r')
      | (None, r') \<Rightarrow>
          (let updated = map (\<lambda>x. if matches (column E) w x then assign E d x else x) (rows r')
           in if unique_ok E updated
              then (Inr (int (length (filter (matches (column E) w) (rows r')))),
                    r'\<lparr>rows := updated\<rparr>)
              else (Inl (unique_violation (uniqueName r')), r')))"

definition repo_delete ::
  "('t, 'p) entity_meta \<Rightarrow> cond list \<Rightarrow> 't repository \<Rightarrow> (int, 't) outcome" where
  "repo_delete E w r =
     (case storage_call ''delete'' w r of
        (Some e, r') \<Rightarrow> (Inl e, r')
      | (None, r') \<Rightarrow>
          (Inr (int (length (filter (matches (column E) w) (rows r')))),
           r'\<lparr>rows := filter (\<lambda>x. \<not> matches (column E) w x) (rows r')\<rparr>))"

text \<open>\<open>repository.manager.transaction(op)\<close>: a failure inside rolls the table back and is
  passed on as it is.\<close>

definition repo_transaction ::
  "('t repository \<Rightarrow> ('r, 't) outcome) \<Rightarrow> 't repository \<Rightarrow> ('r, 't) outcome" where
  "repo_transaction op r =
     (case storage_call ''transaction'' [] r of
        (Some e, r') \<Rightarrow> (Inl e, r')
      | (None, r') \<Rightarrow>
          (case op r' of
             (Inl e, r'') \<Rightarrow> (Inl e, r''\<lparr>rows := rows r'\<rparr>)
           | (Inr v, r'') \<Rightarrow> (Inr v, r'')))"

section \<open>BaseService\<close>

text \<open>\<open>handleError(operation, error)\<close> never returns: the value is what it throws.\<close>

definition handleError :: "string \<Rightarrow> thrown \<Rightarrow> thrown" where
  "handleError operation error =
     Error (''Service error in '' @ operation @ '': '' @
            (if instanceof_Error error then message_of error else ''Unknown error''))"

text \<open>The \<open>try { ... } catch (error) { this.handleError(operation, error) }\<close> around the body
  of every \<open>BaseService\<close> method but \<open>withTransaction\<close>.\<close>

definition try_catch :: "string \<Rightarrow> ('r, 't) outcome \<Rightarrow> ('r, 't) outcome" where
  "try_catch operation res =
     (case res of (Inl e, r) \<Rightarrow> (Inl (handleError operation e), r) | (Inr v, r) \<Rightarrow> (Inr v, r))"

text \<open>Sequencing of awaited calls: a rejection ends the computation.\<close>

definition bind :: "('a, 't) outcome \<Rightarrow> ('a \<Rightarrow> 't repository \<Rightarrow> ('b, 't) outcome) \<Rightarrow> ('b, 't) outcome" where
  "bind m f = (case m of (Inl e, r) \<Rightarrow> (Inl e, r) | (Inr v, r) \<Rightarrow> f v r)"

definition by_id :: "int \<Rightarrow> cond list" where
  "by_id i = [Eq ''id'' (IntV i)]"

definition getById ::
  "('t, 'p) entity_meta \<Rightarrow> int \<Rightarrow> 't repository \<Rightarrow> ('t option, 't) outcome" where
  "getById E i r = try_catch ''getById'' (repo_findOneBy E (by_id i) r)"

definition getAll ::
  "('t, 'p) entity_meta \<Rightarrow> find_options \<Rightarrow> 't repository \<Rightarrow> ('t list, 't) outcome" where
  "getAll E options r = try_catch ''getAll'' (repo_find E options r)"

definition create ::
  "('t, 'p) entity_meta \<Rightarrow> 'p \<Rightarrow> 't repository \<Rightarrow> ('t, 't) outcome" where
  "create E d r = try_catch ''create'' (repo_save E d r)"

definition update ::
  "('t, 'p) entity_meta \<Rightarrow> int \<Rightarrow> 'p \<Rightarrow> 't repository \<Rightarrow> (int, 't) outcome" where
  "update E i d r = try_catch ''update'' (repo_update E (by_id i) d r)"

definition updateByField ::
  "('t, 'p) entity_meta \<Rightarrow> string \<Rightarrow> fval \<Rightarrow> 'p \<Rightarrow> 't repository \<Rightarrow> (int, 't) outcome" where
  "updateByField E searchField searchValue d r =
     try_catch ''updateByField'' (repo_update E [Eq searchField searchValue] d r)"

definition delete ::
  "('t, 'p) entity_meta \<Rightarrow> int \<Rightarrow> 't repository \<Rightarrow> (int, 't) outcome" where
  "delete E i r = try_catch ''delete'' (repo_delete E (by_id i) r)"

definition deleteByField ::
  "('t, 'p) entity_meta \<Rightarrow> string \<Rightarrow> fval \<Rightarrow> 't repository \<Rightarrow> (int, 't) outcome" where
  "deleteByField E searchField searchValue r =
     try_catch ''deleteByField'' (repo_delete E [Eq searchField searchValue] r)"

definition findByField ::
  "('t, 'p) entity_meta \<Rightarrow> string \<Rightarrow> fval \<Rightarrow> find_options \<Rightarrow> 't repository
     \<Rightarrow> ('t list, 't) outcome" where
  "findByField E field v options r =
     try_catch ''findByField'' (repo_find E (options\<lparr>fo_where := [Eq field v]\<rparr>) r)"

definition findOneByField ::
  "('t, 'p) entity_meta \<Rightarrow> string \<Rightarrow> fval \<Rightarrow> find_options \<Rightarrow> 't repository
     \<Rightarrow> ('t option, 't) outcome" where
  "findOneByField E field v options r =
     try_catch ''findOneByField'' (repo_findOne E (options\<lparr>fo_where := [Eq field v]\<rparr>) r)"

definition exists ::
  "('t, 'p) entity_meta \<Rightarrow> string \<Rightarrow> fval \<Rightarrow> 't repository \<Rightarrow> (bool, 't) outcome" where
  "exists E field v r =
     try_catch ''exists'' (bind (repo_count E [Eq field v] r) (\<lambda>cnt r'. (Inr (cnt > 0), r')))"

definition count ::
  "('t, 'p) entity_meta \<Rightarrow> cond list \<Rightarrow> 't repository \<Rightarrow> (int, 't) outcome" where
  "count E whereClause r = try_catch ''count'' (repo_count E whereClause r)"

definition bulkCreate ::
  "('t, 'p) entity_meta \<Rightarrow> 'p list \<Rightarrow> 't repository \<Rightarrow> ('t list, 't) outcome" where
  "bulkCreate E dataArray r =
     try_catch ''bulkCreate''
       (if dataArray = [] then (Inr [], r) else repo_save_all E dataArray r)"

definition updateAndReturn ::
  "('t, 'p) entity_meta \<Rightarrow> int \<Rightarrow> 'p \<Rightarrow> 't repository \<Rightarrow> ('t option, 't) outcome" where
  "updateAndReturn E i d r =
     try_catch ''updateAndReturn''
       (bind (repo_update E (by_id i) d r) (\<lambda>_ r'. getById E i r'))"

definition withTransaction ::
  "('t repository \<Rightarrow> ('r, 't) outcome) \<Rightarrow> 't repository \<Rightarrow> ('r, 't) outcome" where
  "withTransaction operation r = repo_transaction operation r"

record pagination_options =
  page :: int
  limit :: int
  sortBy :: "string option"
  sortOrder :: "sort_order option"

record pagination =
  currentPage :: int
  totalPages :: int
  totalItems :: int
  itemsPerPage :: int
  hasNextPage :: bool
  hasPreviousPage :: bool

record 't paginated_result =
  data :: "'t list"
  pagination :: pagination

text \<open>\<open>Math.ceil(count / limit)\<close> on integers, \<open>limit\<close> positive.\<close>

definition ceil_div :: "int \<Rightarrow> int \<Rightarrow> int" where
  "ceil_div cnt lmt = - ((- cnt) div lmt)"

text \<open>JavaScript truthiness of an optional string: absent and empty are both falsy.\<close>

fun truthy :: "string option \<Rightarrow> bool" where
  "truthy None = False"
| "truthy (Some s) = (s \<noteq> [])"

definition query_options :: "pagination_options \<Rightarrow> find_options \<Rightarrow> find_options" where
  "query_options options findOptions =
     (let offset = (page options - 1) * limit options;
          queryOptions = findOptions\<lparr>fo_take := Some (limit options), fo_skip := Some offset\<rparr>
      in if truthy (sortBy options)
         then queryOptions\<lparr>fo_order :=
                Some (the (sortBy options),
                      (case sortOrder options of None \<Rightarrow> ASC | Some d \<Rightarrow> d))\<rparr>
         else queryOptions)"

definition getPaginated_body ::
  "('t, 'p) entity_meta \<Rightarrow> pagination_options \<Rightarrow> find_options \<Rightarrow> 't repository
     \<Rightarrow> ('t paginated_result, 't) outcome" where
  "getPaginated_body E options findOptions r =
     (if page options < 1 then (Inl (Error ''Page must be greater than 0''), r)
      else if limit options < 1 \<or> limit options > 100
        then (Inl (Error ''Limit must be between 1 and 100''), r)
      else
        (case repo_findAndCount E (query_options options findOptions) r of
           (Inl e, r') \<Rightarrow> (Inl e, r')
         | (Inr (rs, cnt), r') \<Rightarrow>
             (let pages = ceil_div cnt (limit options) in
              (Inr \<lparr>data = rs,
                    pagination = \<lparr>currentPage = page options,
                                  totalPages = pages,
                                  totalItems = cnt,
                                  itemsPerPage = limit options,
                                  hasNextPage = (page options < pages),
                                  hasPreviousPage = (page options > 1)\<rparr>\<rparr>, r'))))"

definition getPaginated ::
  "('t, 'p) entity_meta \<Rightarrow> pagination_options \<Rightarrow> find_options \<Rightarrow> 't repository
     \<Rightarrow> ('t paginated_result, 't) outcome" where
  "getPaginated E options findOptions r =
     try_catch ''getPaginated'' (getPaginated_body E options findOptions r)"

text \<open>\<open>softDelete\<close> and \<open>restore\<close> have the same \<open>try\<close>/\<open>catch\<close> shape around
  \<open>repository.softDelete(id)\<close> and \<open>repository.restore(id)\<close>; what those do to a row depends on
  the deletion column of \<open>base.entity.ts\<close>, which is not among the sources, and no service or
  controller calls them.\<close>

section \<open>Entities\<close>

text \<open>Modelled from the spec: \<open>base.entity.ts\<close> is not among the sources. The spec gives
  every entity \<open>id\<close>, \<open>createdAt\<close>, \<open>updatedAt\<close> and \<open>deletedAt\<close>; the three timestamps are real
  time and are left out.\<close>

record base_entity =
  id' :: int

record book = base_entity +
  title :: string
  author :: string
  description :: "string option"
  year :: "int option"
  coverImageUrl :: "string option"
  userId :: int

record user = base_entity +
  email :: string
  password :: string

text \<open>\<open>DeepPartial<Book>\<close> as the services receive it: every field may be absent.\<close>

record book_data =
  d_title :: "string option"
  d_author :: "string option"
  d_description :: "string option"
  d_year :: "int option"
  d_coverImageUrl :: "string option"
  d_userId :: "int option"

record user_data =
  d_email :: "string option"
  d_password :: "string option"

definition opt_str :: "string option \<Rightarrow> fval" where
  "opt_str v = (case v of None \<Rightarrow> NullV | Some s \<Rightarrow> StrV s)"

definition opt_int :: "int option \<Rightarrow> fval" where
  "opt_int v = (case v of None \<Rightarrow> NullV | Some i \<Rightarrow> IntV i)"

definition book_column :: "string \<Rightarrow> book \<Rightarrow> fval" where
  "book_column f b =
     (if f = ''id'' then IntV (id' b)
      else if f = ''title'' then StrV (title b)
      else if f = ''author'' then StrV (author b)
      else if f = ''description'' then opt_str (description b)
      else if f = ''year'' then opt_int (year b)
      else if f = ''coverImageUrl'' then opt_str (coverImageUrl b)
      else if f = ''userId'' then IntV (userId b)
      else NullV)"

definition book_build :: "int \<Rightarrow> book_data \<Rightarrow> book option" where
  "book_build i d =
     (case (d_title d, d_author d, d_userId d) of
        (Some t, Some a, Some u) \<Rightarrow>
          Some \<lparr>id' = i, title = t, author = a, description = d_description d,
                year = d_year d, coverImageUrl = d_coverImageUrl d, userId = u\<rparr>
      | _ \<Rightarrow> None)"

definition book_assign :: "book_data \<Rightarrow> book \<Rightarrow> book" where
  "book_assign d b =
     b\<lparr>title := (case d_title d of None \<Rightarrow> title b | Some t \<Rightarrow> t),
       author := (case d_author d of None \<Rightarrow> author b | Some a \<Rightarrow> a),
       description := (case d_description d of None \<Rightarrow> description b | Some x \<Rightarrow> Some x),
       year := (case d_year d of None \<Rightarrow> year b | Some y \<Rightarrow> Some y),
       coverImageUrl := (case d_coverImageUrl d of None \<Rightarrow> coverImageUrl b | Some c \<Rightarrow> Some c),
       userId := (case d_userId d of None \<Rightarrow> userId b | Some u \<Rightarrow> u)\<rparr>"

text \<open>\<open>@Unique(['userId', 'title'])\<close> of \<open>book.entity.ts\<close>.\<close>

definition book_collides :: "book \<Rightarrow> book \<Rightarrow> bool" where
  "book_collides a b = (userId a = userId b \<and> title a = title b)"

definition Book :: "(book, book_data) entity_meta" where
  "Book = \<lparr>column = book_column, build = book_build, assign = book_assign,
           collides = book_collides\<rparr>"

definition user_column :: "string \<Rightarrow> user \<Rightarrow> fval" where
  "user_column f u =
     (if f = ''id'' then IntV (id' u)
      else if f = ''email'' then StrV (email u)
      else if f = ''password'' then StrV (password u)
      else NullV)"

definition user_build :: "int \<Rightarrow> user_data \<Rightarrow> user option" where
  "user_build i d =
     (case (d_email d, d_password d) of
        (Some e, Some p) \<Rightarrow> Some \<lparr>id' = i, email = e, password = p\<rparr>
      | _ \<Rightarrow> None)"

definition user_assign :: "user_data \<Rightarrow> user \<Rightarrow> user" where
  "user_assign d u =
     u\<lparr>email := (case d_email d of None \<Rightarrow> email u | Some e \<Rightarrow> e),
       password := (case d_password d of None \<Rightarrow> password u | Some p \<Rightarrow> p)\<rparr>"

text \<open>\<open>@Index(['email'], { unique: true })\<close> of \<open>user.entity.ts\<close>.\<close>

definition user_collides :: "user \<Rightarrow> user \<Rightarrow> bool" where
  "user_collides a b = (email a = email b)"

definition User :: "(user, user_data) entity_meta" where
  "User = \<lparr>column = user_column, build = user_build, assign = user_assign,
           collides = user_collides\<rparr>"

section \<open>BooksService\<close>

definition findByAuthor :: "string \<Rightarrow> book repository \<Rightarrow> (book list, book) outcome" where
  "findByAuthor a r = findByField Book ''author'' (StrV a) no_options r"

definition findByUser :: "int \<Rightarrow> book repository \<Rightarrow> (book list, book) outcome" where
  "findByUser u r = findByField Book ''userId'' (IntV u) no_options r"

definition findByYear :: "int \<Rightarrow> book repository \<Rightarrow> (book list, book) outcome" where
  "findByYear y r = findByField Book ''year'' (IntV y) no_options r"

definition titleExists :: "string \<Rightarrow> book repository \<Rightarrow> (bool, book) outcome" where
  "titleExists t r = exists Book ''title'' (StrV t) r"

definition countByUser :: "int \<Rightarrow> book repository \<Rightarrow> (int, book) outcome" where
  "countByUser u r = count Book [Eq ''userId'' (IntV u)] r"

definition deleteAllByUser :: "int \<Rightarrow> book repository \<Rightarrow> (int, book) outcome" where
  "deleteAllByUser u r = deleteByField Book ''userId'' (IntV u) r"

definition contains :: "string \<Rightarrow> string" where
  "contains term = ''%'' @ term @ ''%''"

definition searchByTitle :: "string \<Rightarrow> book repository \<Rightarrow> (book list, book) outcome" where
  "searchByTitle t r =
     try_catch ''searchByTitle'' (repo_getMany Book [ILike ''title'' (contains t)] r)"

definition searchByAuthor :: "string \<Rightarrow> book repository \<Rightarrow> (book list, book) outcome" where
  "searchByAuthor a r =
     try_catch ''searchByAuthor'' (repo_getMany Book [ILike ''author'' (contains a)] r)"

text \<open>\<open>relations: ['user']\<close> joins the owner onto each book; the books found are the same.\<close>

definition getBooksWithUser :: "find_options \<Rightarrow> book repository \<Rightarrow> (book list, book) outcome" where
  "getBooksWithUser options r = try_catch ''getBooksWithUser'' (repo_find Book options r)"

definition findByAuthors :: "string list \<Rightarrow> book repository \<Rightarrow> (book list, book) outcome" where
  "findByAuthors authors r =
     try_catch ''findByAuthors''
       (if authors = [] then (Inr [], r)
        else repo_getMany Book [In ''author'' (map StrV authors)] r)"

definition findByIdAndUser :: "int \<Rightarrow> int \<Rightarrow> book repository \<Rightarrow> (book option, book) outcome" where
  "findByIdAndUser bookId u r =
     try_catch ''findByIdAndUser''
       (repo_findOneBy Book [Eq ''id'' (IntV bookId), Eq ''userId'' (IntV u)] r)"

definition searchByTitleForUser ::
  "int \<Rightarrow> string \<Rightarrow> book repository \<Rightarrow> (book list, book) outcome" where
  "searchByTitleForUser u searchTerm r =
     try_catch ''searchByTitleForUser''
       (repo_getMany Book
          [Eq ''userId'' (IntV u),
           Or (ILike ''title'' (contains searchTerm)) (ILike ''author'' (contains searchTerm))] r)"

definition findByAuthorForUser ::
  "int \<Rightarrow> string \<Rightarrow> book repository \<Rightarrow> (book list, book) outcome" where
  "findByAuthorForUser u a r =
     try_catch ''findByAuthorForUser''
       (repo_getMany Book [Eq ''userId'' (IntV u), ILike ''author'' (contains a)] r)"

definition getPaginatedByUser ::
  "int \<Rightarrow> pagination_options \<Rightarrow> find_options \<Rightarrow> book repository
     \<Rightarrow> (book paginated_result, book) outcome" where
  "getPaginatedByUser u options findOptions r =
     getPaginated Book options (findOptions\<lparr>fo_where := [Eq ''userId'' (IntV u)]\<rparr>) r"

definition findByYearForUser ::
  "int \<Rightarrow> int \<Rightarrow> book repository \<Rightarrow> (book list, book) outcome" where
  "findByYearForUser u y r =
     try_catch ''findByYearForUser''
       (repo_findBy Book [Eq ''userId'' (IntV u), Eq ''year'' (IntV y)] r)"

definition titleExistsForUser ::
  "int \<Rightarrow> string \<Rightarrow> book repository \<Rightarrow> (bool, book) outcome" where
  "titleExistsForUser u t r =
     try_catch ''titleExistsForUser''
       (bind (repo_count Book [Eq ''userId'' (IntV u), Eq ''title'' (StrV t)] r)
             (\<lambda>cnt r'. (Inr (cnt > 0), r')))"


section \<open>AuthService\<close>

text \<open>The collaborators of the service: \<open>bcrypt.hash(password, saltRounds)\<close>,
  \<open>bcrypt.compare(password, hash)\<close> and \<open>jwtService.sign({ sub, email })\<close>. Each may throw.\<close>

record auth_env =
  bcrypt_hash :: "string \<Rightarrow> nat \<Rightarrow> thrown + string"
  bcrypt_compare :: "string \<Rightarrow> string \<Rightarrow> thrown + bool"
  jwt_sign :: "int \<Rightarrow> string \<Rightarrow> thrown + string"

record register_dto =
  reg_email :: string
  reg_password :: string

record login_dto =
  login_email :: string
  login_password :: string

record auth_user =
  au_id :: int
  au_email :: string

record auth_response =
  resp_user :: auth_user
  access_token :: string

definition issue_token :: "auth_env \<Rightarrow> user \<Rightarrow> user repository \<Rightarrow> (auth_response, user) outcome" where
  "issue_token env u r =
     (case jwt_sign env (id' u) (email u) of
        Inl e \<Rightarrow> (Inl e, r)
      | Inr token \<Rightarrow>
          (Inr \<lparr>resp_user = \<lparr>au_id = id' u, au_email = email u\<rparr>, access_token = token\<rparr>, r))"

definition register ::
  "auth_env \<Rightarrow> register_dto \<Rightarrow> user repository \<Rightarrow> (auth_response, user) outcome" where
  "register env registerDto r =
     bind (exists User ''email'' (StrV (toLowerCase (reg_email registerDto))) r)
       (\<lambda>existingUser r1.
          if existingUser
          then (Inl (ConflictException ''User with this email already exists''), r1)
          else
            (case bcrypt_hash env (reg_password registerDto) 12 of
               Inl e \<Rightarrow> (Inl e, r1)
             | Inr hashedPassword \<Rightarrow>
                 (case bind (create User \<lparr>d_email = Some (toLowerCase (reg_email registerDto)),
                                          d_password = Some hashedPassword\<rparr> r1)
                            (\<lambda>savedUser r2. issue_token env savedUser r2) of
                    (Inl error, r2) \<Rightarrow>
                      if code_of error = Some ''23505''
                      then (Inl (ConflictException ''User with this email already exists''), r2)
                      else (Inl (BadRequestException ''Failed to create user''), r2)
                  | (Inr response, r2) \<Rightarrow> (Inr response, r2))))"

definition login ::
  "auth_env \<Rightarrow> login_dto \<Rightarrow> user repository \<Rightarrow> (auth_response, user) outcome" where
  "login env loginDto r =
     bind (findByField User ''email'' (StrV (toLowerCase (login_email loginDto))) no_options r)
       (\<lambda>users r1.
          if users = [] then (Inl (UnauthorizedException ''Invalid email or password''), r1)
          else
            bind (repo_findOne User
                    (no_options\<lparr>fo_where := [Eq ''email'' (StrV (toLowerCase (login_email loginDto)))]\<rparr>)
                    r1)
              (\<lambda>found r2.
                 case found of
                   None \<Rightarrow> (Inl (UnauthorizedException ''Invalid email or password''), r2)
                 | Some u \<Rightarrow>
                     (case bcrypt_compare env (login_password loginDto) (password u) of
                        Inl e \<Rightarrow> (Inl e, r2)
                      | Inr isPasswordValid \<Rightarrow>
                          if \<not> isPasswordValid
                          then (Inl (UnauthorizedException ''Invalid email or password''), r2)
                          else issue_token env u r2)))"

definition validateUser :: "int \<Rightarrow> user repository \<Rightarrow> (user option, user) outcome" where
  "validateUser sub r = getById User sub r"

definition findUserByEmail :: "string \<Rightarrow> user repository \<Rightarrow> (user option, user) outcome" where
  "findUserByEmail e r =
     (case findByField User ''email'' (StrV (toLowerCase e)) no_options r of
        (Inl error, r') \<Rightarrow>
          (Inl (Error (''Error finding user by email: '' @
                       (if instanceof_Error error then message_of error else ''Unknown error''))), r')
      | (Inr users, r') \<Rightarrow> (Inr (case users of [] \<Rightarrow> None | u # _ \<Rightarrow> Some u), r'))"

definition emailExists :: "string \<Rightarrow> user repository \<Rightarrow> (bool, user) outcome" where
  "emailExists e r = exists User ''email'' (StrV (toLowerCase e)) r"

section \<open>BooksController\<close>

record 'd api_response =
  success :: bool
  message :: string
  payload :: 'd
  page_info :: "pagination option"

definition successResponse :: "'d \<Rightarrow> string \<Rightarrow> 'd api_response" where
  "successResponse d m = \<lparr>success = True, message = m, payload = d, page_info = None\<rparr>"

definition successResponseWithPagination :: "'d \<Rightarrow> pagination \<Rightarrow> string \<Rightarrow> 'd api_response" where
  "successResponseWithPagination d p m =
     \<lparr>success = True, message = m, payload = d, page_info = Some p\<rparr>"

text \<open>The two \<open>catch\<close> blocks of the controller: the one that answers 500 to everything, and
  the one that lets an \<open>HttpException\<close> through first.\<close>

definition internal_error :: "thrown \<Rightarrow> thrown" where
  "internal_error error =
     throwErrorResponse
       (if instanceof_Error error then message_of error else ''Unknown error occurred'') 500"

definition rethrow_http :: "thrown \<Rightarrow> thrown" where
  "rethrow_http error = (if instanceof_HttpException error then error else internal_error error)"

record book_query =
  q_page :: "int option"
  q_limit :: "int option"
  q_sortBy :: "string option"
  q_sortOrder :: "sort_order option"
  q_author :: "string option"
  q_search :: "string option"

definition getAllBooks ::
  "user \<Rightarrow> book_query \<Rightarrow> book repository \<Rightarrow> (book list api_response, book) outcome" where
  "getAllBooks usr query r =
     (case
        (if truthy (q_search query)
         then bind (searchByTitleForUser (id' usr) (the (q_search query)) r)
                (\<lambda>books r'. (Inr (successResponse books ''Books retrieved successfully''), r'))
         else if truthy (q_author query)
         then bind (findByAuthorForUser (id' usr) (the (q_author query)) r)
                (\<lambda>books r'.
                   (Inr (successResponse books ''Books by author retrieved successfully''), r'))
         else bind (getPaginatedByUser (id' usr)
                      \<lparr>page = (case q_page query of None \<Rightarrow> 1 | Some p \<Rightarrow> p),
                       limit = (case q_limit query of None \<Rightarrow> 10 | Some l \<Rightarrow> l),
                       sortBy = q_sortBy query, sortOrder = q_sortOrder query\<rparr>
                      no_options r)
                (\<lambda>result r'.
                   (Inr (successResponseWithPagination (data result) (pagination result)
                           ''Books retrieved successfully''), r')))
      of (Inl error, r') \<Rightarrow> (Inl (internal_error error), r')
       | (Inr response, r') \<Rightarrow> (Inr response, r'))"

definition getBookById ::
  "user \<Rightarrow> int \<Rightarrow> book repository \<Rightarrow> (book api_response, book) outcome" where
  "getBookById usr i r =
     (case
        bind (findByIdAndUser i (id' usr) r)
          (\<lambda>found r'.
             case found of
               None \<Rightarrow> (Inl (throwErrorResponse ''Book not found'' 404), r')
             | Some b \<Rightarrow> (Inr (successResponse b ''Book retrieved successfully''), r'))
      of (Inl error, r') \<Rightarrow> (Inl (rethrow_http error), r')
       | (Inr response, r') \<Rightarrow> (Inr response, r'))"

text \<open>The object store: \<open>uploadFile\<close> answers the URL of the stored cover (its key holds
  \<open>Date.now()\<close>), \<open>deleteFile\<close> may throw.\<close>

record upload =
  mimetype :: string
  file_size :: nat
  originalname :: string

record minio =
  uploadFile :: "upload \<Rightarrow> int \<Rightarrow> thrown + string"
  deleteFile :: "string \<Rightarrow> thrown option"

text \<open>\<open>${error.message}\<close> in a template literal: a value without a message prints
  \<open>undefined\<close>.\<close>

definition template_message :: "thrown \<Rightarrow> string" where
  "template_message e = (if instanceof_Error e then message_of e else ''undefined'')"

definition uploadCoverImage :: "minio \<Rightarrow> upload \<Rightarrow> user \<Rightarrow> thrown + string" where
  "uploadCoverImage m coverImage usr =
     (case
        (if mimetype coverImage \<notin> set [''image/jpeg'', ''image/jpg'', ''image/png'']
         then Inl (HttpException 400 ''Invalid file type. Only JPEG, PNG images are allowed.'')
         else if file_size coverImage > 3 * 1024 * 1024
         then Inl (HttpException 400 ''File too large. Maximum size is 3MB.'')
         else uploadFile m coverImage (id' usr))
      of Inl uploadError \<Rightarrow>
           Inl (HttpException 500 (''Failed to upload cover image: '' @ template_message uploadError))
       | Inr url \<Rightarrow> Inr url)"

record create_book_dto =
  c_title :: string
  c_author :: string
  c_description :: "string option"
  c_year :: "int option"
  c_userId :: "int option"

definition duplicate_title :: "string \<Rightarrow> string" where
  "duplicate_title t =
     ''You already have a book with the title '' @ quote t @ ''. Please use a different title.''"

text \<open>\<open>String.prototype.includes\<close>.\<close>

fun starts_with :: "string \<Rightarrow> string \<Rightarrow> bool" where
  "starts_with s [] = True"
| "starts_with [] (p # ps) = False"
| "starts_with (c # cs) (p # ps) = (c = p \<and> starts_with cs ps)"

fun str_includes :: "string \<Rightarrow> string \<Rightarrow> bool" where
  "str_includes [] sub = (sub = [])"
| "str_includes (c # cs) sub = (starts_with (c # cs) sub \<or> str_includes cs sub)"

definition createBook_catch :: "create_book_dto \<Rightarrow> thrown \<Rightarrow> thrown" where
  "createBook_catch createBookDto error =
     (if instanceof_HttpException error then error
      else if code_of error = Some ''23505'' \<and>
              (case constraint_of error of
                 None \<Rightarrow> False
               | Some k \<Rightarrow> k \<noteq> [] \<and> str_includes k ''userId'' \<and> str_includes k ''title'')
      then throwErrorResponse (duplicate_title (c_title createBookDto)) 409
      else internal_error error)"

text \<open>The optional upload of \<open>createBook\<close>: \<open>coverImageUrl\<close> stays undefined without a file.\<close>

definition upload_cover :: "minio \<Rightarrow> user \<Rightarrow> upload option \<Rightarrow> thrown + string option" where
  "upload_cover m usr coverImage =
     (case coverImage of
        None \<Rightarrow> Inr None
      | Some f \<Rightarrow>
          (case uploadCoverImage m f usr of
             Inl e \<Rightarrow> Inl e
           | Inr url \<Rightarrow> Inr (Some url)))"

definition bookData :: "create_book_dto \<Rightarrow> user \<Rightarrow> string option \<Rightarrow> book_data" where
  "bookData createBookDto usr coverUrl =
     \<lparr>d_title = Some (c_title createBookDto),
      d_author = Some (c_author createBookDto),
      d_description = c_description createBookDto,
      d_year = c_year createBookDto,
      d_coverImageUrl = coverUrl,
      d_userId = Some (id' usr)\<rparr>"

definition createBook ::
  "minio \<Rightarrow> user \<Rightarrow> create_book_dto \<Rightarrow> upload option \<Rightarrow> book repository
     \<Rightarrow> (book api_response, book) outcome" where
  "createBook m usr createBookDto coverImage r =
     (case
        bind (titleExistsForUser (id' usr) (c_title createBookDto) r)
          (\<lambda>titleExists r1.
             if titleExists
             then (Inl (throwErrorResponse (duplicate_title (c_title createBookDto)) 409), r1)
             else
               (case upload_cover m usr coverImage of
                  Inl e \<Rightarrow> (Inl e, r1)
                | Inr coverUrl \<Rightarrow>
                    bind (create Book (bookData createBookDto usr coverUrl) r1)
                      (\<lambda>b r2. (Inr (successResponse b ''Book created successfully''), r2))))
      of (Inl error, r') \<Rightarrow> (Inl (createBook_catch createBookDto error), r')
       | (Inr response, r') \<Rightarrow> (Inr response, r'))"

text \<open>The update payload is \<open>updateBookDto as any\<close>: the fields of \<open>UpdateBookDto\<close> and
  whatever \<open>userId\<close> came with them. The three steps of \<open>updateBook\<close> after the book is found:
  the check of a new title against the owner's other books, then the update without
  \<open>userId\<close> and the second read.\<close>

definition check_title ::
  "user \<Rightarrow> book_data \<Rightarrow> book \<Rightarrow> book repository \<Rightarrow> (unit, book) outcome" where
  "check_title usr updateBookDto existingBook r =
     (if truthy (d_title updateBookDto) \<and> the (d_title updateBookDto) \<noteq> title existingBook
      then bind (titleExistsForUser (id' usr) (the (d_title updateBookDto)) r)
             (\<lambda>titleExists r2.
                if titleExists
                then (Inl (throwErrorResponse
                             (duplicate_title (the (d_title updateBookDto))) 409), r2)
                else (Inr (), r2))
      else (Inr (), r))"

definition apply_update ::
  "user \<Rightarrow> int \<Rightarrow> book_data \<Rightarrow> book repository
     \<Rightarrow> (book option api_response, book) outcome" where
  "apply_update usr i updateBookDto r =
     (let updateData = updateBookDto\<lparr>d_userId := None\<rparr> in
      bind (update Book i updateData r)
        (\<lambda>_ r3.
           bind (findByIdAndUser i (id' usr) r3)
             (\<lambda>updatedBook r4.
                (Inr (successResponse updatedBook ''Book updated successfully''), r4))))"

definition updateBook ::
  "user \<Rightarrow> int \<Rightarrow> book_data \<Rightarrow> book repository
     \<Rightarrow> (book option api_response, book) outcome" where
  "updateBook usr i updateBookDto r =
     (case
        bind (findByIdAndUser i (id' usr) r)
          (\<lambda>found r1.
             case found of
               None \<Rightarrow> (Inl (throwErrorResponse ''Book not found'' 404), r1)
             | Some existingBook \<Rightarrow>
                 bind (check_title usr updateBookDto existingBook r1)
                   (\<lambda>_ r2. apply_update usr i updateBookDto r2))
      of (Inl error, r') \<Rightarrow> (Inl (rethrow_http error), r')
       | (Inr response, r') \<Rightarrow> (Inr response, r'))"

fun show_nat :: "nat \<Rightarrow> string" where
  "show_nat n =
     (if n < 10 then [char_of (48 + n)] else show_nat (n div 10) @ [char_of (48 + n mod 10)])"

definition show_int :: "int \<Rightarrow> string" where
  "show_int i = (if i < 0 then CHR ''-'' # show_nat (nat (- i)) else show_nat (nat i))"

text \<open>The last element of \<open>url.split('/')\<close>.\<close>

definition last_segment :: "string \<Rightarrow> string" where
  "last_segment url = rev (takeWhile (\<lambda>c. c \<noteq> CHR ''/'') (rev url))"

text \<open>The clean-up of the cover in \<open>deleteBook\<close>: what its inner \<open>try\<close> block throws, if
  anything. The surrounding \<open>catch\<close> only logs it.\<close>

definition cover_cleanup :: "minio \<Rightarrow> user \<Rightarrow> book \<Rightarrow> thrown option" where
  "cover_cleanup m usr b =
     (if truthy (coverImageUrl b)
      then (let fileName = last_segment (the (coverImageUrl b)) in
            if fileName \<noteq> []
            then deleteFile m (''covers/'' @ show_int (id' usr) @ ''/'' @ fileName)
            else None)
      else None)"

definition deleteBook ::
  "minio \<Rightarrow> user \<Rightarrow> int \<Rightarrow> book repository \<Rightarrow> (unit api_response, book) outcome" where
  "deleteBook m usr i r =
     (case
        bind (findByIdAndUser i (id' usr) r)
          (\<lambda>found r1.
             case found of
               None \<Rightarrow> (Inl (throwErrorResponse ''Book not found'' 404), r1)
             | Some b \<Rightarrow>
                 (case cover_cleanup m usr b of
                    _ \<Rightarrow>
                      bind (delete Book i r1)
                        (\<lambda>_ r2. (Inr (successResponse () ''Book deleted successfully''), r2))))
      of (Inl error, r') \<Rightarrow> (Inl (rethrow_http error), r')
       | (Inr response, r') \<Rightarrow> (Inr response, r'))"


section \<open>Example stores\<close>

text \<open>The next storage call is served (no failure is scheduled for it).\<close>

definition next_call_ok :: "'t repository \<Rightarrow> bool" where
  "next_call_ok r = (case faults r of [] \<Rightarrow> True | f # _ \<Rightarrow> f = None)"

text \<open>The collation of the example stores: integers by value, strings byte by byte, \<open>NULL\<close>
  last.\<close>

fun str_le :: "string \<Rightarrow> string \<Rightarrow> bool" where
  "str_le [] t = True"
| "str_le (c # cs) [] = False"
| "str_le (c # cs) (d # ds) = ((of_char c :: nat) < of_char d \<or> (c = d \<and> str_le cs ds))"

fun byte_order :: "fval \<Rightarrow> fval \<Rightarrow> bool" where
  "byte_order (IntV a) (IntV b) = (a \<le> b)"
| "byte_order (StrV a) (StrV b) = str_le a b"
| "byte_order v NullV = True"
| "byte_order v w = False"

definition gatsby1 :: book where
  "gatsby1 = \<lparr>id' = 1, title = ''The Great Gatsby'', author = ''F. Scott Fitzgerald'',
              description = None, year = Some 1925, coverImageUrl = None, userId = 1\<rparr>"

definition gatsby2 :: book where
  "gatsby2 = \<lparr>id' = 2, title = ''The Great Gatsby'', author = ''F. Scott Fitzgerald'',
              description = None, year = Some 1925, coverImageUrl = None, userId = 2\<rparr>"

definition dune :: book where
  "dune = \<lparr>id' = 3, title = ''Dune'', author = ''Frank Herbert'',
           description = None, year = Some 1965, coverImageUrl = None, userId = 1\<rparr>"

definition shelf :: "book repository" where
  "shelf = \<lparr>rows = [gatsby1, gatsby2, dune], nextId = 4, collation = byte_order,
            uniqueName = ''UQ_books_userId_title'', faults = [], calls = []\<rparr>"

text \<open>The same table after the store has moved a row: without \<open>ORDER BY\<close> a relational
  store answers in whatever order it keeps the rows.\<close>

definition moved_shelf :: "book repository" where
  "moved_shelf = shelf\<lparr>rows := [dune, gatsby1, gatsby2]\<rparr>"

definition alice :: user where
  "alice = \<lparr>id' = 1, email = ''alice@example.com'', password = ''hashed:Secret1''\<rparr>"

definition bob :: user where
  "bob = \<lparr>id' = 2, email = ''bob@example.com'', password = ''hashed:Secret2''\<rparr>"

definition accounts :: "user repository" where
  "accounts = \<lparr>rows = [alice], nextId = 2, collation = byte_order,
               uniqueName = ''UQ_users_email'', faults = [], calls = []\<rparr>"

definition test_env :: auth_env where
  "test_env = \<lparr>bcrypt_hash = (\<lambda>p n. Inr (''hashed:'' @ p)),
               bcrypt_compare = (\<lambda>p h. Inr (h = ''hashed:'' @ p)),
               jwt_sign = (\<lambda>i e. Inr ''jwt-token'')\<rparr>"

definition test_minio :: minio where
  "test_minio = \<lparr>uploadFile = (\<lambda>f u. Inr ''https://minio.example.com/covers/cover.png''),
                 deleteFile = (\<lambda>k. None)\<rparr>"

definition carol_dto :: register_dto where
  "carol_dto = \<lparr>reg_email = ''carol@example.com'', reg_password = ''Secret3''\<rparr>"

definition padded_dto :: register_dto where
  "padded_dto = \<lparr>reg_email = '' Carol@Example.COM'', reg_password = ''Secret3''\<rparr>"

definition mixed_dto :: register_dto where
  "mixed_dto = \<lparr>reg_email = ''Carol@Example.COM'', reg_password = ''Secret3''\<rparr>"

definition alice_login :: login_dto where
  "alice_login = \<lparr>login_email = ''alice@example.com'', login_password = ''Secret1''\<rparr>"

definition shout_login :: login_dto where
  "shout_login = \<lparr>login_email = ''ALICE@Example.COM'', login_password = ''Secret1''\<rparr>"

definition carol_data :: user_data where
  "carol_data = \<lparr>d_email = Some ''carol@example.com'', d_password = Some ''hashed:Secret3''\<rparr>"

definition emma_dto :: create_book_dto where
  "emma_dto = \<lparr>c_title = ''Emma'', c_author = ''Jane Austen'', c_description = None,
               c_year = Some 1815, c_userId = None\<rparr>"

definition dune_dto :: create_book_dto where
  "dune_dto = \<lparr>c_title = ''Dune'', c_author = ''Frank Herbert'', c_description = None,
               c_year = Some 1965, c_userId = None\<rparr>"

text \<open>A store whose first call is served and whose second call, the insert, is rejected
  by the unique index: another request has stored the same key between the two awaits.\<close>

definition raced :: "'t repository \<Rightarrow> 't repository" where
  "raced r = r\<lparr>faults := [None, Some (unique_violation (uniqueName r))]\<rparr>"

text \<open>An update payload that renames a book and tries to hand it to another owner.\<close>

definition hijack_dto :: book_data where
  "hijack_dto = \<lparr>d_title = Some ''Dune Messiah'', d_author = None, d_description = None,
                 d_year = None, d_coverImageUrl = None, d_userId = Some 2\<rparr>"

definition page_request :: "int \<Rightarrow> int \<Rightarrow> pagination_options" where
  "page_request p l = \<lparr>page = p, limit = l, sortBy = None, sortOrder = None\<rparr>"

section \<open>Notions used in the statements\<close>

text \<open>The pagination window: the \<open>(offset, limit)\<close> slice of an ordered result set.\<close>

definition page_window :: "pagination_options \<Rightarrow> 't list \<Rightarrow> 't list" where
  "page_window options xs =
     take (nat (limit options)) (drop (nat ((page options - 1) * limit options)) xs)"

text \<open>The shape \<open>handleError\<close> gives a failure of the operation named.\<close>

definition service_error :: "string \<Rightarrow> thrown \<Rightarrow> bool" where
  "service_error operation e =
     (case e of
        Error m \<Rightarrow> starts_with m (''Service error in '' @ operation @ '': '')
      | _ \<Rightarrow> False)"

definition failure :: "('r, 't) outcome \<Rightarrow> thrown option" where
  "failure res = (case fst res of Inl e \<Rightarrow> Some e | Inr _ \<Rightarrow> None)"

text \<open>Every book of a list belongs to the owner; the rows of the other owners are the same
  in two states of the table.\<close>

definition owned_by :: "int \<Rightarrow> book list \<Rightarrow> bool" where
  "owned_by u bs = list_all (\<lambda>b. userId b = u) bs"

definition others_untouched :: "int \<Rightarrow> book repository \<Rightarrow> book repository \<Rightarrow> bool" where
  "others_untouched u r r' =
     (filter (\<lambda>b. userId b \<noteq> u) (rows r') = filter (\<lambda>b. userId b \<noteq> u) (rows r))"

text \<open>\<open>String.prototype.trim\<close> on ASCII text: the normalisation the specification asks of an
  email besides lower-casing.\<close>

definition is_space :: "char \<Rightarrow> bool" where
  "is_space c =
     (c = CHR '' '' \<or> c = CHR 0x09 \<or> c = CHR 0x0A \<or> c = CHR 0x0B \<or> c = CHR 0x0C \<or> c = CHR 0x0D)"

definition trim :: "string \<Rightarrow> string" where
  "trim s = rev (dropWhile is_space (rev (dropWhile is_space s)))"

section \<open>Pagination\<close>

lemma ceil_div_ceiling: "ceil_div c l = \<lceil>real_of_int c / real_of_int l\<rceil>"
  by (simp add: ceil_div_def ceiling_divide_eq_div)

lemma storage_call_ok:
  "next_call_ok r \<Longrightarrow>
     \<exists>r'. storage_call name w r = (None, r') \<and> rows r' = rows r"
  by (auto simp: next_call_ok_def storage_call_def split: list.splits)

lemma length_select_rows:
  "fo_take opts = Some k \<Longrightarrow> 0 \<le> k \<Longrightarrow> int (length (select_rows E opts r)) \<le> k"
  by (simp add: select_rows_def Let_def split: option.splits)

lemma query_options_take: "fo_take (query_options options findOptions) = Some (limit options)"
  by (simp add: query_options_def Let_def)

lemma query_options_where: "fo_where (query_options options findOptions) = fo_where findOptions"
  by (simp add: query_options_def Let_def)

text \<open>
  C1. For a valid request (\<open>page \<ge> 1\<close>, \<open>1 \<le> limit \<le> 100\<close>) served by the store,
  \<open>getPaginated\<close> returns a result with \<open>totalPages = ceil(totalItems / limit)\<close>, at most
  \<open>limit\<close> items, \<open>hasNextPage = (currentPage < totalPages)\<close>,
  \<open>hasPreviousPage = (currentPage > 1)\<close>, \<open>currentPage = page\<close> and \<open>itemsPerPage = limit\<close>;
  \<open>totalItems\<close> is the number of rows that pass the base filter.
\<close>

theorem getPaginated_valid:
  assumes "1 \<le> page options" and "1 \<le> limit options" and "limit options \<le> 100"
    and "next_call_ok r"
  shows "\<exists>res r'. getPaginated E options findOptions r = (Inr res, r') \<and>
           totalPages (pagination res) =
             \<lceil>real_of_int (totalItems (pagination res)) / real_of_int (limit options)\<rceil> \<and>
           int (length (data res)) \<le> limit options \<and>
           hasNextPage (pagination res) =
             (currentPage (pagination res) < totalPages (pagination res)) \<and>
           hasPreviousPage (pagination res) = (currentPage (pagination res) > 1) \<and>
           currentPage (pagination res) = page options \<and>
           itemsPerPage (pagination res) = limit options \<and>
           totalItems (pagination res) =
             int (length (filter (matches (column E) (fo_where findOptions)) (rows r)))"
proof -
  let ?q = "query_options options findOptions"
  obtain r' where call: "storage_call ''findAndCount'' (fo_where ?q) r = (None, r')"
    and same: "rows r' = rows r"
    using storage_call_ok [OF assms(4)] by blast
  have len: "int (length (select_rows E ?q r')) \<le> limit options"
    by (rule length_select_rows) (use assms(2) in \<open>simp_all add: query_options_take\<close>)
  show ?thesis
    using assms(1-3) call same len
    by (simp add: getPaginated_def getPaginated_body_def try_catch_def repo_findAndCount_def
        Let_def ceil_div_ceiling query_options_where)
qed


lemma shelf_ok: "next_call_ok shelf"
  by (simp add: next_call_ok_def shelf_def)

theorem getPaginated_valid_witness:
  "1 \<le> page (page_request 2 2) \<and> 1 \<le> limit (page_request 2 2) \<and>
   limit (page_request 2 2) \<le> 100 \<and> next_call_ok shelf \<and>
   (\<exists>res r'. getPaginated Book (page_request 2 2) no_options shelf = (Inr res, r') \<and>
      totalPages (pagination res) = 2 \<and> int (length (data res)) \<le> 2 \<and>
      totalItems (pagination res) = 3 \<and>
      \<not> hasNextPage (pagination res) \<and> hasPreviousPage (pagination res))"
proof -
  have h: "1 \<le> page (page_request 2 2)" "1 \<le> limit (page_request 2 2)"
    "limit (page_request 2 2) \<le> 100"
    by (simp_all add: page_request_def)
  have n: "int (length (filter (matches (column Book) (fo_where no_options)) (rows shelf))) = 3"
    by (simp add: shelf_def no_options_def matches_def)
  from getPaginated_valid [OF h shelf_ok, of Book no_options]
  obtain res r' where
    "getPaginated Book (page_request 2 2) no_options shelf = (Inr res, r')"
    "totalPages (pagination res) =
       \<lceil>real_of_int (totalItems (pagination res)) / real_of_int (limit (page_request 2 2))\<rceil>"
    "int (length (data res)) \<le> limit (page_request 2 2)"
    "hasNextPage (pagination res) = (currentPage (pagination res) < totalPages (pagination res))"
    "hasPreviousPage (pagination res) = (currentPage (pagination res) > 1)"
    "currentPage (pagination res) = page (page_request 2 2)"
    "totalItems (pagination res) = 3"
    unfolding n by blast
  then show ?thesis
    using h shelf_ok by (auto simp: page_request_def)
qed

text \<open>
  C2, as the code has it. A request with \<open>page < 1\<close>, \<open>limit < 1\<close> or \<open>limit > 100\<close> fails
  before any storage access: the repository, its call log included, is returned as it was.
  What is thrown is a plain \<open>Error\<close> with the message
  \<open>Service error in getPaginated: Page must be greater than 0\<close> when \<open>page < 1\<close> and
  \<open>Service error in getPaginated: Limit must be between 1 and 100\<close> otherwise.
\<close>

theorem getPaginated_invalid:
  assumes "page options < 1 \<or> limit options < 1 \<or> limit options > 100"
  shows "getPaginated E options findOptions r =
           (Inl (Error (''Service error in getPaginated: '' @
                   (if page options < 1 then ''Page must be greater than 0''
                    else ''Limit must be between 1 and 100''))), r)"
  using assms
  by (auto simp: getPaginated_def getPaginated_body_def try_catch_def handleError_def)

theorem getPaginated_invalid_witness:
  "(page (page_request 0 10) < 1 \<or> limit (page_request 0 10) < 1 \<or>
      limit (page_request 0 10) > 100) \<and>
   getPaginated Book (page_request 0 10) no_options shelf =
     (Inl (Error ''Service error in getPaginated: Page must be greater than 0''), shelf) \<and>
   (page (page_request 1 0) < 1 \<or> limit (page_request 1 0) < 1 \<or>
      limit (page_request 1 0) > 100) \<and>
   getPaginated Book (page_request 1 0) no_options shelf =
     (Inl (Error ''Service error in getPaginated: Limit must be between 1 and 100''), shelf) \<and>
   (page (page_request 1 101) < 1 \<or> limit (page_request 1 101) < 1 \<or>
      limit (page_request 1 101) > 100) \<and>
   getPaginated Book (page_request 1 101) no_options shelf =
     (Inl (Error ''Service error in getPaginated: Limit must be between 1 and 100''), shelf)"
  using getPaginated_invalid [of "page_request 0 10" Book no_options shelf]
    getPaginated_invalid [of "page_request 1 0" Book no_options shelf]
    getPaginated_invalid [of "page_request 1 101" Book no_options shelf]
  by (simp add: page_request_def)

text \<open>
  C2 as stated asks for a \<open>ValidationError\<close>, a kind of failure of its own beside the
  \<open>RepositoryError\<close> that wraps a storage failure. The code has one kind for both: the
  value thrown for \<open>page = 0\<close> is the value thrown for a valid request whose storage call
  rejects with the same message.
\<close>

theorem getPaginated_invalid_counterexample:
  "fst (getPaginated Book (page_request 0 10) no_options shelf) =
     Inl (Error ''Service error in getPaginated: Page must be greater than 0'') \<and>
   fst (getPaginated Book (page_request 1 10) no_options
          (shelf\<lparr>faults := [Some (Error ''Page must be greater than 0'')]\<rparr>)) =
     fst (getPaginated Book (page_request 0 10) no_options shelf)"
  by (simp add: getPaginated_def getPaginated_body_def try_catch_def handleError_def
      page_request_def repo_findAndCount_def storage_call_def shelf_def)

text \<open>
  C9, as the code has it. For a valid request served by the store, with no order in the
  base options: when \<open>sortBy\<close> is absent (or empty) the page is the window of the rows found
  in the store's own order, no sort being asked for; when \<open>sortBy\<close> is given, the rows are
  sorted on that column, ascending unless \<open>sortOrder\<close> says otherwise.
\<close>

theorem getPaginated_default_order:
  assumes "1 \<le> page options" and "1 \<le> limit options" and "limit options \<le> 100"
    and "next_call_ok r" and "fo_order findOptions = None"
  shows "\<exists>res r'. getPaginated E options findOptions r = (Inr res, r') \<and>
           (\<not> truthy (sortBy options) \<longrightarrow>
              data res =
                page_window options
                  (filter (matches (column E) (fo_where findOptions)) (rows r))) \<and>
           (\<forall>f. sortBy options = Some f \<and> f \<noteq> [] \<longrightarrow>
              data res =
                page_window options
                  (order_rows (collation r) (column E f)
                     (case sortOrder options of None \<Rightarrow> ASC | Some d \<Rightarrow> d)
                     (filter (matches (column E) (fo_where findOptions)) (rows r))))"
proof -
  let ?q = "query_options options findOptions"
  obtain r' where call: "storage_call ''findAndCount'' (fo_where ?q) r = (None, r')"
    and same: "rows r' = rows r" "collation r' = collation r"
    using assms(4) by (auto simp: next_call_ok_def storage_call_def split: list.splits)
  show ?thesis
    using assms(1-3,5) call same
    by (cases "sortBy options")
      (auto simp: getPaginated_def getPaginated_body_def try_catch_def repo_findAndCount_def
        Let_def query_options_def select_rows_def page_window_def)
qed

theorem getPaginated_default_order_witness:
  "1 \<le> page (page_request 1 10) \<and> 1 \<le> limit (page_request 1 10) \<and>
   limit (page_request 1 10) \<le> 100 \<and> next_call_ok moved_shelf \<and>
   fo_order no_options = None \<and> \<not> truthy (sortBy (page_request 1 10)) \<and>
   (\<exists>res r'. getPaginated Book (page_request 1 10) no_options moved_shelf = (Inr res, r') \<and>
      data res = [dune, gatsby1, gatsby2]) \<and>
   (\<exists>res r'. getPaginated Book ((page_request 1 10)\<lparr>sortBy := Some ''id''\<rparr>) no_options
                moved_shelf = (Inr res, r') \<and>
      data res = [gatsby1, gatsby2, dune])"
proof -
  have ok: "next_call_ok moved_shelf"
    by (simp add: next_call_ok_def moved_shelf_def shelf_def)
  have h: "1 \<le> page (page_request 1 10)" "1 \<le> limit (page_request 1 10)"
    "limit (page_request 1 10) \<le> 100"
    by (simp_all add: page_request_def)
  have h': "1 \<le> page ((page_request 1 10)\<lparr>sortBy := Some ''id''\<rparr>)"
    "1 \<le> limit ((page_request 1 10)\<lparr>sortBy := Some ''id''\<rparr>)"
    "limit ((page_request 1 10)\<lparr>sortBy := Some ''id''\<rparr>) \<le> 100"
    by (simp_all add: page_request_def)
  have o: "fo_order no_options = None"
    by (simp add: no_options_def)
  have found: "filter (matches (column Book) (fo_where no_options)) (rows moved_shelf) =
                 [dune, gatsby1, gatsby2]"
    by (simp add: moved_shelf_def shelf_def no_options_def matches_def)
  have sorted: "order_rows (collation moved_shelf) (column Book ''id'') ASC
                  [dune, gatsby1, gatsby2] = [gatsby1, gatsby2, dune]"
    by (simp add: moved_shelf_def shelf_def Book_def book_column_def sort_by_def
        dune_def gatsby1_def gatsby2_def)
  from getPaginated_default_order [OF h ok o, of Book]
  have a: "\<exists>res r'. getPaginated Book (page_request 1 10) no_options moved_shelf = (Inr res, r') \<and>
             data res = [dune, gatsby1, gatsby2]"
    unfolding found by (auto simp: page_request_def page_window_def)
  from getPaginated_default_order [OF h' ok o, of Book]
  have b: "\<exists>res r'. getPaginated Book ((page_request 1 10)\<lparr>sortBy := Some ''id''\<rparr>) no_options
                       moved_shelf = (Inr res, r') \<and>
             data res = [gatsby1, gatsby2, dune]"
    unfolding found using sorted by (auto simp: page_request_def page_window_def)
  show ?thesis
    using a b ok o h by (simp add: page_request_def)
qed

text \<open>
  C9 as stated fails: with \<open>sortBy\<close> absent the page is not sorted on the primary key but
  comes in the store's order.
\<close>

theorem getPaginated_default_unsorted:
  "fst (getPaginated Book (page_request 1 10) no_options moved_shelf) =
     Inr \<lparr>data = [dune, gatsby1, gatsby2],
          pagination = \<lparr>currentPage = 1, totalPages = 1, totalItems = 3, itemsPerPage = 10,
                        hasNextPage = False, hasPreviousPage = False\<rparr>\<rparr> \<and>
   map id' [dune, gatsby1, gatsby2] = [3, 1, 2] \<and>
   \<not> sorted (map id' [dune, gatsby1, gatsby2])"
  by code_simp

section \<open>Storage calls and the error wrapper\<close>

lemma storage_call_frame:
  "rows (snd (storage_call n w r)) = rows r"
  "nextId (snd (storage_call n w r)) = nextId r"
  "collation (snd (storage_call n w r)) = collation r"
  "uniqueName (snd (storage_call n w r)) = uniqueName r"
  "calls (snd (storage_call n w r)) = calls r @ [(n, w)]"
  by (simp_all add: storage_call_def split: list.splits)

lemma storage_call_cases:
  obtains (rejected) e r' where "storage_call n w r = (Some e, r')" "rows r' = rows r"
      "calls r' = calls r @ [(n, w)]" "nextId r' = nextId r" "uniqueName r' = uniqueName r"
      "\<not> next_call_ok r"
  | (served) r' where "storage_call n w r = (None, r')" "rows r' = rows r"
      "calls r' = calls r @ [(n, w)]" "nextId r' = nextId r" "uniqueName r' = uniqueName r"
      "faults r' = tl (faults r)" "collation r' = collation r"
proof (cases "storage_call n w r")
  case (Pair f r')
  then have "r' = snd (storage_call n w r)" by simp
  then have fr: "rows r' = rows r" "calls r' = calls r @ [(n, w)]" "nextId r' = nextId r"
    "uniqueName r' = uniqueName r" "collation r' = collation r"
    by (simp_all add: storage_call_frame)
  show ?thesis
  proof (cases f)
    case None
    have "faults r' = tl (faults r)"
      using Pair None by (cases "faults r") (auto simp: storage_call_def)
    with Pair None fr show ?thesis using served by blast
  next
    case (Some e)
    have "\<not> next_call_ok r"
      using Pair Some by (cases "faults r") (auto simp: storage_call_def next_call_ok_def)
    with Pair Some fr show ?thesis using rejected by blast
  qed
qed

lemma try_catch_snd [simp]: "snd (try_catch operation res) = snd res"
  by (simp add: try_catch_def split: prod.splits sum.splits)

lemma try_catch_Inr [simp]: "fst (try_catch operation res) = Inr v \<longleftrightarrow> fst res = Inr v"
  by (auto simp: try_catch_def split: prod.splits sum.splits)

lemma starts_with_append: "starts_with (p @ m) p"
  by (induction p) simp_all

lemma service_error_handleError: "service_error operation (handleError operation e)"
proof -
  let ?p = "''Service error in '' @ operation @ '': ''"
  obtain m where "handleError operation e = Error (?p @ m)"
    by (simp add: handleError_def)
  then show ?thesis
    unfolding service_error_def by (simp only: thrown.case starts_with_append)
qed

lemma try_catch_failure:
  "failure (try_catch operation res) = Some e \<Longrightarrow> service_error operation e"
  by (auto simp: failure_def try_catch_def service_error_handleError
      split: prod.splits sum.splits)

lemma try_catch_cause:
  "failure (try_catch operation res) = Some e \<Longrightarrow>
     \<exists>cause. failure res = Some cause \<and> e = handleError operation cause"
  by (auto simp: failure_def try_catch_def split: prod.splits sum.splits)

lemma service_error_plain: "service_error operation e \<Longrightarrow> code_of e = None \<and> constraint_of e = None"
  by (cases e) (simp_all add: service_error_def)

section \<open>Reading a book by id and owner\<close>

lemma find_matches: "find P xs = Some x \<Longrightarrow> P x \<and> x \<in> set xs"
  by (induction xs) (auto split: if_splits)

lemma book_match_id_user:
  "matches (column Book) [Eq ''id'' (IntV i), Eq ''userId'' (IntV u)] b \<longleftrightarrow> id' b = i \<and> userId b = u"
  by (simp add: matches_def Book_def book_column_def)

text \<open>
  C3. \<open>findByIdAndUser\<close> makes one storage call, a \<open>findOneBy\<close> whose conditions are
  the id and the owner together, and leaves the table as it is. A book it returns has the id
  and the owner asked for. When every book with that id belongs to another owner, and the
  store serves the call, it returns absent.
\<close>

theorem findByIdAndUser_scoped:
  "calls (snd (findByIdAndUser bookId u r)) =
     calls r @ [(''findOneBy'', [Eq ''id'' (IntV bookId), Eq ''userId'' (IntV u)])] \<and>
   rows (snd (findByIdAndUser bookId u r)) = rows r \<and>
   (\<forall>b. fst (findByIdAndUser bookId u r) = Inr (Some b) \<longrightarrow>
      id' b = bookId \<and> userId b = u \<and> b \<in> set (rows r)) \<and>
   (next_call_ok r \<and> (\<forall>b \<in> set (rows r). id' b = bookId \<longrightarrow> userId b \<noteq> u) \<longrightarrow>
      fst (findByIdAndUser bookId u r) = Inr None)"
proof -
  let ?w = "[Eq ''id'' (IntV bookId), Eq ''userId'' (IntV u)]"
  show ?thesis
  proof (cases rule: storage_call_cases [of "''findOneBy''" ?w r])
    case (rejected e r')
    have "findByIdAndUser bookId u r = (Inl (handleError ''findByIdAndUser'' e), r')"
      by (simp add: findByIdAndUser_def repo_findOneBy_def try_catch_def rejected(1))
    with rejected(2,3,6) show ?thesis by simp
  next
    case (served r')
    have val: "findByIdAndUser bookId u r = (Inr (find (matches (column Book) ?w) (rows r)), r')"
      by (simp add: findByIdAndUser_def repo_findOneBy_def try_catch_def served(1,2))
    have none: "find (matches (column Book) ?w) (rows r) = None"
      if "\<forall>b \<in> set (rows r). id' b = bookId \<longrightarrow> userId b \<noteq> u"
      using that unfolding find_None_iff book_match_id_user by blast
    have some: "id' b = bookId \<and> userId b = u \<and> b \<in> set (rows r)"
      if "find (matches (column Book) ?w) (rows r) = Some b" for b
      using find_matches [OF that] by (simp add: book_match_id_user)
    have 1: "calls (snd (findByIdAndUser bookId u r)) = calls r @ [(''findOneBy'', ?w)]"
      by (simp add: val served(3))
    have 2: "rows (snd (findByIdAndUser bookId u r)) = rows r"
      by (simp add: val served(2))
    have 3: "\<forall>b. fst (findByIdAndUser bookId u r) = Inr (Some b) \<longrightarrow>
               id' b = bookId \<and> userId b = u \<and> b \<in> set (rows r)"
    proof (intro allI impI)
      fix b
      assume "fst (findByIdAndUser bookId u r) = Inr (Some b)"
      then have "find (matches (column Book) ?w) (rows r) = Some b"
        by (simp add: val)
      then show "id' b = bookId \<and> userId b = u \<and> b \<in> set (rows r)"
        by (rule some)
    qed
    have 4: "next_call_ok r \<and> (\<forall>b \<in> set (rows r). id' b = bookId \<longrightarrow> userId b \<noteq> u) \<longrightarrow>
               fst (findByIdAndUser bookId u r) = Inr None"
    proof
      assume "next_call_ok r \<and> (\<forall>b \<in> set (rows r). id' b = bookId \<longrightarrow> userId b \<noteq> u)"
      then have "find (matches (column Book) ?w) (rows r) = None"
        using none by blast
      then show "fst (findByIdAndUser bookId u r) = Inr None"
        by (simp add: val)
    qed
    show ?thesis
      by (intro conjI) (rule 1, rule 2, rule 3, rule 4)
  qed
qed

theorem findByIdAndUser_scoped_witness:
  "fst (findByIdAndUser 1 1 shelf) = Inr (Some gatsby1) \<and>
   (id' gatsby1 = 1 \<and> userId gatsby1 = 1 \<and> gatsby1 \<in> set (rows shelf)) \<and>
   next_call_ok shelf \<and>
   map userId (filter (\<lambda>b. id' b = 1) (rows shelf)) = [1] \<and>
   fst (findByIdAndUser 1 2 shelf) = Inr None \<and>
   calls (snd (findByIdAndUser 1 2 shelf)) =
     calls shelf @ [(''findOneBy'', [Eq ''id'' (IntV 1), Eq ''userId'' (IntV 2)])]"
proof -
  note t = findByIdAndUser_scoped [of 1 _ shelf]
  have a: "fst (findByIdAndUser 1 1 shelf) = Inr (Some gatsby1)"
    by code_simp
  have k: "next_call_ok shelf"
    by code_simp
  have f: "map userId (filter (\<lambda>b. id' b = 1) (rows shelf)) = [1]"
    by code_simp
  have h: "next_call_ok shelf \<and> (\<forall>b \<in> set (rows shelf). id' b = 1 \<longrightarrow> userId b \<noteq> 2)"
    by code_simp
  have o: "id' gatsby1 = 1 \<and> userId gatsby1 = 1 \<and> gatsby1 \<in> set (rows shelf)"
    by (rule t [THEN conjunct2, THEN conjunct2, THEN conjunct1, rule_format, OF a])
  have n: "fst (findByIdAndUser 1 2 shelf) = Inr None"
    by (rule t [THEN conjunct2, THEN conjunct2, THEN conjunct2, rule_format, OF h])
  have l: "calls (snd (findByIdAndUser 1 2 shelf)) =
             calls shelf @ [(''findOneBy'', [Eq ''id'' (IntV 1), Eq ''userId'' (IntV 2)])]"
    by (rule t [THEN conjunct1])
  show ?thesis
    by (intro conjI) (rule a, rule o [THEN conjunct1], rule o [THEN conjunct2, THEN conjunct1],
        rule o [THEN conjunct2, THEN conjunct2], rule k, rule f, rule n, rule l)
qed

section \<open>What the wrapper does to a storage failure\<close>

lemma handleError_plain:
  "code_of (handleError operation e) = None" "constraint_of (handleError operation e) = None"
  by (simp_all add: handleError_def)

text \<open>
  C10, as the code has it. A failure of \<open>create\<close> reaches the caller as a plain \<open>Error\<close> in
  the shape \<open>Service error in create: ...\<close>, with no \<open>code\<close> and no \<open>constraint\<close>; two
  storage failures that are \<open>Error\<close> instances with the same message, a uniqueness violation
  among them, give the very same outcome. The same holds of every method that wraps its body
  in \<open>try\<close>/\<open>catch\<close>: the failure is a new plain \<open>Error\<close> whose message is
  \<open>Service error in <operation>: \<close> followed by the message of the value caught when that is
  an \<open>Error\<close> instance, and by \<open>Unknown error\<close> when it is not.
\<close>

theorem service_errors_wrapped:
  "(\<forall>e. failure (create E d r) = Some e \<longrightarrow>
      service_error ''create'' e \<and> code_of e = None \<and> constraint_of e = None) \<and>
   (instanceof_Error c1 \<and> instanceof_Error c2 \<and> message_of c1 = message_of c2 \<longrightarrow>
      create E d (r\<lparr>faults := Some c1 # fs\<rparr>) = create E d (r\<lparr>faults := Some c2 # fs\<rparr>)) \<and>
   (\<forall>e. failure (try_catch operation res) = Some e \<longrightarrow>
      (\<exists>cause. failure res = Some cause \<and>
         e = Error (''Service error in '' @ operation @ '': '' @
                    (if instanceof_Error cause then message_of cause else ''Unknown error''))) \<and>
      code_of e = None \<and> constraint_of e = None) \<and>
   (\<forall>e. failure (getById E i r) = Some e \<longrightarrow> service_error ''getById'' e) \<and>
   (\<forall>e. failure (getAll E options r) = Some e \<longrightarrow> service_error ''getAll'' e) \<and>
   (\<forall>e. failure (update E i d r) = Some e \<longrightarrow> service_error ''update'' e) \<and>
   (\<forall>e. failure (updateByField E field v d r) = Some e \<longrightarrow> service_error ''updateByField'' e) \<and>
   (\<forall>e. failure (delete E i r) = Some e \<longrightarrow> service_error ''delete'' e) \<and>
   (\<forall>e. failure (deleteByField E field v r) = Some e \<longrightarrow> service_error ''deleteByField'' e) \<and>
   (\<forall>e. failure (getPaginated E popts options r) = Some e \<longrightarrow> service_error ''getPaginated'' e) \<and>
   (\<forall>e. failure (findByField E field v options r) = Some e \<longrightarrow> service_error ''findByField'' e) \<and>
   (\<forall>e. failure (findOneByField E field v options r) = Some e \<longrightarrow>
      service_error ''findOneByField'' e) \<and>
   (\<forall>e. failure (exists E field v r) = Some e \<longrightarrow> service_error ''exists'' e) \<and>
   (\<forall>e. failure (count E w r) = Some e \<longrightarrow> service_error ''count'' e) \<and>
   (\<forall>e. failure (bulkCreate E ds r) = Some e \<longrightarrow> service_error ''bulkCreate'' e) \<and>
   (\<forall>e. failure (updateAndReturn E i d r) = Some e \<longrightarrow> service_error ''updateAndReturn'' e)"
proof -
  have gen: "\<forall>e. failure (try_catch operation res) = Some e \<longrightarrow>
      (\<exists>cause. failure res = Some cause \<and>
         e = Error (''Service error in '' @ operation @ '': '' @
                    (if instanceof_Error cause then message_of cause else ''Unknown error''))) \<and>
      code_of e = None \<and> constraint_of e = None"
  proof (intro allI impI)
    fix e
    assume "failure (try_catch operation res) = Some e"
    then obtain cause where c: "failure res = Some cause" "e = handleError operation cause"
      using try_catch_cause by blast
    from c(2) have "code_of e = None" "constraint_of e = None"
      by (simp_all add: handleError_plain)
    moreover from c have "\<exists>cause. failure res = Some cause \<and>
         e = Error (''Service error in '' @ operation @ '': '' @
                    (if instanceof_Error cause then message_of cause else ''Unknown error''))"
      unfolding handleError_def by (intro exI [of _ cause] conjI)
    ultimately show "(\<exists>cause. failure res = Some cause \<and>
         e = Error (''Service error in '' @ operation @ '': '' @
                    (if instanceof_Error cause then message_of cause else ''Unknown error''))) \<and>
      code_of e = None \<and> constraint_of e = None"
      by (intro conjI)
  qed
  have cr: "\<forall>e. failure (create E d r) = Some e \<longrightarrow>
      service_error ''create'' e \<and> code_of e = None \<and> constraint_of e = None"
  proof (intro allI impI)
    fix e
    assume "failure (create E d r) = Some e"
    then have "service_error ''create'' e"
      unfolding create_def by (rule try_catch_failure)
    then show "service_error ''create'' e \<and> code_of e = None \<and> constraint_of e = None"
      using service_error_plain by blast
  qed
  have same: "instanceof_Error c1 \<and> instanceof_Error c2 \<and> message_of c1 = message_of c2 \<longrightarrow>
      create E d (r\<lparr>faults := Some c1 # fs\<rparr>) = create E d (r\<lparr>faults := Some c2 # fs\<rparr>)"
    by (simp add: create_def repo_save_def storage_call_def try_catch_def handleError_def)
  show ?thesis
    apply (intro conjI)
    subgoal by (rule cr)
    subgoal by (rule same)
    subgoal by (rule gen)
    subgoal unfolding getById_def by (intro allI impI) (erule try_catch_failure)
    subgoal unfolding getAll_def by (intro allI impI) (erule try_catch_failure)
    subgoal unfolding update_def by (intro allI impI) (erule try_catch_failure)
    subgoal unfolding updateByField_def by (intro allI impI) (erule try_catch_failure)
    subgoal unfolding delete_def by (intro allI impI) (erule try_catch_failure)
    subgoal unfolding deleteByField_def by (intro allI impI) (erule try_catch_failure)
    subgoal unfolding getPaginated_def by (intro allI impI) (erule try_catch_failure)
    subgoal unfolding findByField_def by (intro allI impI) (erule try_catch_failure)
    subgoal unfolding findOneByField_def by (intro allI impI) (erule try_catch_failure)
    subgoal unfolding exists_def by (intro allI impI) (erule try_catch_failure)
    subgoal unfolding count_def by (intro allI impI) (erule try_catch_failure)
    subgoal unfolding bulkCreate_def by (intro allI impI) (erule try_catch_failure)
    subgoal unfolding updateAndReturn_def by (intro allI impI) (erule try_catch_failure)
    done
qed

text \<open>
  C10 as stated fails on three counts. \<open>withTransaction\<close> has no \<open>try\<close>/\<open>catch\<close>: a failure
  inside the operation it runs is passed on as it is. A caught value that is not an
  \<open>Error\<close> instance, the \<open>{ code: '23505' }\<close> of the test suite, gets the text
  \<open>Unknown error\<close> for a message. And the message of the driver's error does survive in
  the text of the new one, so a uniqueness violation and a lost connection reach the caller of
  \<open>create\<close> as two different errors.
\<close>

theorem withTransaction_unwrapped:
  "fst (withTransaction (repo_save User carol_data)
          (accounts\<lparr>faults := [None, Some (Error ''Connection lost'')]\<rparr>)) =
     Inl (Error ''Connection lost'') \<and>
   \<not> service_error ''withTransaction'' (Error ''Connection lost'') \<and>
   fst (create User carol_data (accounts\<lparr>faults := [Some (NonError (Some ''23505'') None)]\<rparr>)) =
     Inl (Error ''Service error in create: Unknown error'') \<and>
   fst (create User carol_data (accounts\<lparr>faults := [Some (unique_violation ''UQ_users_email'')]\<rparr>)) \<noteq>
     fst (create User carol_data (accounts\<lparr>faults := [Some (Error ''Connection lost'')]\<rparr>))"
  by code_simp

section \<open>Uniqueness violations at insert time\<close>

text \<open>
  C5 at the failing input. The store rejects the insert of \<open>register\<close> with a uniqueness
  violation (code \<open>23505\<close>); \<open>create\<close> has rewrapped it by the time the \<open>catch\<close> of
  \<open>register\<close> looks for the code, so the answer is \<open>BadRequestException\<close>, not
  \<open>ConflictException\<close>.
\<close>

theorem register_insert_conflict_lost:
  "fst (register test_env carol_dto (raced accounts)) =
     Inl (BadRequestException ''Failed to create user'') \<and>
   faults (raced accounts) = [None, Some (unique_violation ''UQ_users_email'')] \<and>
   code_of (unique_violation ''UQ_users_email'') = Some ''23505''"
  by code_simp

text \<open>
  C4 at the failing input. The store rejects the insert of \<open>createBook\<close> with a uniqueness
  violation whose constraint names \<open>userId\<close> and \<open>title\<close>. The \<open>catch\<close> of \<open>createBook\<close> would
  answer 409 to that error, but what reaches it is the rewrapped \<open>Error\<close>: the answer is 500
  with the message of the wrapper.
\<close>

theorem createBook_insert_conflict_lost:
  "fst (createBook test_minio alice emma_dto None (raced shelf)) =
     Inl (HttpException 500
            (''Service error in create: '' @ message_of (unique_violation ''UQ_books_userId_title''))) \<and>
   faults (raced shelf) = [None, Some (unique_violation ''UQ_books_userId_title'')] \<and>
   createBook_catch emma_dto (unique_violation ''UQ_books_userId_title'') =
     HttpException 409 (duplicate_title ''Emma'')"
  by code_simp

text \<open>The parts of C4 that hold: the pre-check answers 409 with the title in the message,
  and the same title under another owner is stored.\<close>

lemma createBook_precheck_conflict:
  "fst (createBook test_minio alice dune_dto None shelf) =
     Inl (HttpException 409 (duplicate_title ''Dune''))"
  by code_simp

lemma createBook_other_owner:
  "fst (createBook test_minio bob dune_dto None shelf) =
     Inr (successResponse
            \<lparr>id' = 4, title = ''Dune'', author = ''Frank Herbert'', description = None,
             year = Some 1965, coverImageUrl = None, userId = 2\<rparr>
            ''Book created successfully'')"
  by code_simp

text \<open>Whatever the store rejects the insert with, \<open>register\<close> answers the same.\<close>

lemma register_any_insert_failure:
  "fst (register test_env carol_dto (accounts\<lparr>faults := [None, Some e]\<rparr>)) =
     Inl (BadRequestException ''Failed to create user'')"
  by (simp add: register_def exists_def create_def bind_def try_catch_def repo_count_def
      repo_save_def storage_call_def accounts_def test_env_def carol_dto_def handleError_def
      matches_def User_def user_column_def alice_def toLowerCase_def lower_char_def
      BadRequestException_def ConflictException_def)

theorem service_errors_wrapped_witness:
  "failure (create User carol_data (accounts\<lparr>faults := [Some (unique_violation ''UQ_users_email'')]\<rparr>)) =
     Some (Error (''Service error in create: '' @ message_of (unique_violation ''UQ_users_email''))) \<and>
   (service_error ''create''
      (Error (''Service error in create: '' @ message_of (unique_violation ''UQ_users_email''))) \<and>
    code_of (Error (''Service error in create: '' @
                    message_of (unique_violation ''UQ_users_email''))) = None \<and>
    constraint_of (Error (''Service error in create: '' @
                          message_of (unique_violation ''UQ_users_email''))) = None) \<and>
   (instanceof_Error (unique_violation ''UQ_users_email'') \<and>
    instanceof_Error (Error (message_of (unique_violation ''UQ_users_email''))) \<and>
    message_of (unique_violation ''UQ_users_email'') =
      message_of (Error (message_of (unique_violation ''UQ_users_email'')))) \<and>
   create User carol_data (accounts\<lparr>faults := [Some (unique_violation ''UQ_users_email'')]\<rparr>) =
     create User carol_data
       (accounts\<lparr>faults := [Some (Error (message_of (unique_violation ''UQ_users_email'')))]\<rparr>)"
proof -
  let ?u = "unique_violation ''UQ_users_email''"
  let ?e = "Error (''Service error in create: '' @ message_of ?u)"
  note t = service_errors_wrapped [where E = User and d = carol_data
      and r = "accounts\<lparr>faults := [Some ?u]\<rparr>"]
  have f: "failure (create User carol_data (accounts\<lparr>faults := [Some ?u]\<rparr>)) = Some ?e"
    by code_simp
  have p: "service_error ''create'' ?e \<and> code_of ?e = None \<and> constraint_of ?e = None"
    by (rule t [THEN conjunct1, rule_format, OF f])
  have h: "instanceof_Error ?u \<and> instanceof_Error (Error (message_of ?u)) \<and>
           message_of ?u = message_of (Error (message_of ?u))"
    by (simp add: unique_violation_def)
  note t' = service_errors_wrapped [where E = User and d = carol_data and r = accounts
      and ?c1.0 = ?u and ?c2.0 = "Error (message_of ?u)" and fs = "[]"]
  have s: "create User carol_data (accounts\<lparr>faults := [Some ?u]\<rparr>) =
        create User carol_data (accounts\<lparr>faults := [Some (Error (message_of ?u))]\<rparr>)"
    by (rule t' [THEN conjunct2, THEN conjunct1, rule_format, OF h])
  show ?thesis
    by (rule conjI [OF f conjI [OF p conjI [OF h s]]])
qed

section \<open>Email normalisation in register and login\<close>

lemma bind_Inr:
  "bind m f = (Inr v, r') \<Longrightarrow> \<exists>a r1. m = (Inr a, r1) \<and> f a r1 = (Inr v, r')"
  by (cases m) (auto simp: bind_def split: sum.splits)

lemma try_catch_Inr_eq:
  "try_catch operation res = (Inr v, r') \<longleftrightarrow> res = (Inr v, r')"
  by (cases res) (auto simp: try_catch_def split: sum.splits)

lemma repo_count_frame:
  "rows (snd (repo_count E w r)) = rows r"
  "nextId (snd (repo_count E w r)) = nextId r"
  "calls (snd (repo_count E w r)) = calls r @ [(''count'', w)]"
  by (cases rule: storage_call_cases [of "''count''" w r]; simp add: repo_count_def)+

lemma exists_frame:
  "rows (snd (exists E f v r)) = rows r"
  "nextId (snd (exists E f v r)) = nextId r"
  "calls (snd (exists E f v r)) = calls r @ [(''count'', [Eq f v])]"
proof -
  have "snd (exists E f v r) = snd (repo_count E [Eq f v] r)"
    by (cases "repo_count E [Eq f v] r") (auto simp: exists_def bind_def split: sum.splits)
  then show "rows (snd (exists E f v r)) = rows r"
    "nextId (snd (exists E f v r)) = nextId r"
    "calls (snd (exists E f v r)) = calls r @ [(''count'', [Eq f v])]"
    by (simp_all add: repo_count_frame)
qed

lemma insert_row_Inr:
  "insert_row E d r = (Inr x, r') \<Longrightarrow>
     rows r' = rows r @ [x] \<and> build E (nextId r) d = Some x \<and> calls r' = calls r"
  by (auto simp: insert_row_def Let_def split: option.splits if_splits)

lemma insert_row_calls: "calls (snd (insert_row E d r)) = calls r"
  by (auto simp: insert_row_def Let_def split: option.splits if_splits)

lemma create_Inr:
  assumes "create E d r = (Inr x, r')"
  shows "rows r' = rows r @ [x] \<and> build E (nextId r) d = Some x"
proof -
  from assms have s: "repo_save E d r = (Inr x, r')"
    by (simp add: create_def try_catch_Inr_eq)
  show ?thesis
  proof (cases rule: storage_call_cases [of "''save''" "[]" r])
    case (rejected e r1)
    with s show ?thesis by (simp add: repo_save_def)
  next
    case (served r1)
    with s have "insert_row E d r1 = (Inr x, r')" by (simp add: repo_save_def)
    from insert_row_Inr [OF this] served(2,4) show ?thesis by simp
  qed
qed

lemma create_calls: "calls (snd (create E d r)) = calls r @ [(''save'', [])]"
proof (cases rule: storage_call_cases [of "''save''" "[]" r])
  case (rejected e r1)
  then show ?thesis by (simp add: create_def repo_save_def)
next
  case (served r1)
  then show ?thesis by (simp add: create_def repo_save_def insert_row_calls)
qed

lemma issue_token_Inr:
  "issue_token env u r = (Inr resp, r') \<Longrightarrow>
     r' = r \<and> au_email (resp_user resp) = email u \<and> au_id (resp_user resp) = id' u"
  by (auto simp: issue_token_def split: sum.splits)

lemma issue_token_snd: "snd (issue_token env u r) = r"
  by (simp add: issue_token_def split: sum.splits)

lemma user_build_email:
  "build User n \<lparr>d_email = Some e, d_password = Some p\<rparr> = Some u \<Longrightarrow> email u = e \<and> id' u = n"
  by (auto simp: User_def user_build_def)

lemma exists_result:
  "exists E f v r = (res, r1) \<Longrightarrow>
     rows r1 = rows r \<and> nextId r1 = nextId r \<and> calls r1 = calls r @ [(''count'', [Eq f v])]"
  using exists_frame [of E f v r] by simp

lemma register_Inr:
  assumes "register env dto r = (Inr resp, r')"
  shows "au_email (resp_user resp) = toLowerCase (reg_email dto) \<and>
         (\<exists>u. rows r' = rows r @ [u] \<and> email u = toLowerCase (reg_email dto) \<and> id' u = au_id (resp_user resp))"
proof -
  let ?l = "toLowerCase (reg_email dto)"
  from bind_Inr [OF assms [unfolded register_def]] obtain existing r1 where
    ex: "exists User ''email'' (StrV ?l) r = (Inr existing, r1)" and
    k: "(if existing
          then (Inl (ConflictException ''User with this email already exists''), r1)
          else
            (case bcrypt_hash env (reg_password dto) 12 of
               Inl e \<Rightarrow> (Inl e, r1)
             | Inr hashedPassword \<Rightarrow>
                 (case bind (create User \<lparr>d_email = Some ?l, d_password = Some hashedPassword\<rparr> r1)
                            (issue_token env) of
                    (Inl error, r2) \<Rightarrow>
                      if code_of error = Some ''23505''
                      then (Inl (ConflictException ''User with this email already exists''), r2)
                      else (Inl (BadRequestException ''Failed to create user''), r2)
                  | (Inr response, r2) \<Rightarrow> (Inr response, r2)))) = (Inr resp, r')"
    by auto
  from exists_result [OF ex] have r1: "rows r1 = rows r"
    by simp
  from k obtain h where
    b: "bind (create User \<lparr>d_email = Some ?l, d_password = Some h\<rparr> r1)
          (issue_token env) = (Inr resp, r')"
    by (auto split: if_splits sum.splits prod.splits)
  from bind_Inr [OF b] obtain u r2 where
    c: "create User \<lparr>d_email = Some ?l, d_password = Some h\<rparr> r1 = (Inr u, r2)" and
    t: "issue_token env u r2 = (Inr resp, r')"
    by blast
  from create_Inr [OF c] have "rows r2 = rows r1 @ [u]" "email u = ?l"
    using user_build_email by blast+
  with issue_token_Inr [OF t] r1 show ?thesis
    by auto
qed

lemma repo_find_frame:
  "rows (snd (repo_find E opts r)) = rows r"
  "calls (snd (repo_find E opts r)) = calls r @ [(''find'', fo_where opts)]"
  by (cases rule: storage_call_cases [of "''find''" "fo_where opts" r]; simp add: repo_find_def)+

lemma repo_findOne_frame:
  "rows (snd (repo_findOne E opts r)) = rows r"
  "calls (snd (repo_findOne E opts r)) = calls r @ [(''findOne'', fo_where opts)]"
  by (cases rule: storage_call_cases [of "''findOne''" "fo_where opts" r];
      simp add: repo_findOne_def)+

lemma set_sort_by: "set (sort_by le xs) = set xs"
proof -
  have "set (insert_by le x ys) = insert x (set ys)" for x ys
    by (induction ys) auto
  then show ?thesis
    unfolding sort_by_def by (induction xs) auto
qed

lemma set_order_rows: "set (order_rows le key d xs) = set xs"
  by (cases d) (simp_all add: set_sort_by)

lemma set_select_rows:
  "set (select_rows E opts r) \<subseteq> {x \<in> set (rows r). matches (column E) (fo_where opts) x}"
proof -
  have a: "set (take n xs) \<subseteq> set xs" for n and xs :: "'a list"
    by (rule set_take_subset)
  have b: "set (drop n xs) \<subseteq> set xs" for n and xs :: "'a list"
    by (rule set_drop_subset)
  show ?thesis
    unfolding select_rows_def Let_def
    using a b
    by (auto simp: set_order_rows split: option.splits dest!: in_set_takeD in_set_dropD)
qed

lemma repo_findOne_Some:
  assumes "repo_findOne E opts r = (Inr (Some x), r')"
  shows "x \<in> set (rows r) \<and> matches (column E) (fo_where opts) x \<and> rows r' = rows r"
proof (cases rule: storage_call_cases [of "''findOne''" "fo_where opts" r])
  case (rejected e r1)
  with assms show ?thesis by (simp add: repo_findOne_def)
next
  case (served r1)
  with assms have "select_rows E opts r1 \<noteq> []" "x = hd (select_rows E opts r1)" "r' = r1"
    by (auto simp: repo_findOne_def split: list.splits)
  then have "x \<in> set (select_rows E opts r1)"
    by simp
  with set_select_rows [of E opts r1] served(2) \<open>r' = r1\<close> show ?thesis
    by auto
qed

lemma user_match_email:
  "matches (column User) [Eq ''email'' (StrV l)] u \<longleftrightarrow> email u = l"
  by (simp add: matches_def User_def user_column_def)

lemma findByField_frame:
  "rows (snd (findByField E f v opts r)) = rows r"
  "calls (snd (findByField E f v opts r)) = calls r @ [(''find'', [Eq f v])]"
  by (simp_all add: findByField_def repo_find_frame)

lemma findByField_result:
  "findByField E f v opts r = (res, r1) \<Longrightarrow>
     rows r1 = rows r \<and> calls r1 = calls r @ [(''find'', [Eq f v])]"
  using findByField_frame [of E f v opts r] by simp

lemma login_Inr:
  assumes "login env dto r = (Inr resp, r')"
  shows "au_email (resp_user resp) = toLowerCase (login_email dto) \<and> rows r' = rows r"
proof -
  let ?l = "toLowerCase (login_email dto)"
  let ?o = "no_options\<lparr>fo_where := [Eq ''email'' (StrV ?l)]\<rparr>"
  from bind_Inr [OF assms [unfolded login_def]] obtain users r1 where
    f: "findByField User ''email'' (StrV ?l) no_options r = (Inr users, r1)" and
    k: "bind (repo_findOne User ?o r1)
          (\<lambda>found r2.
             case found of
               None \<Rightarrow> (Inl (UnauthorizedException ''Invalid email or password''), r2)
             | Some u \<Rightarrow>
                 (case bcrypt_compare env (login_password dto) (password u) of
                    Inl e \<Rightarrow> (Inl e, r2)
                  | Inr isPasswordValid \<Rightarrow>
                      if \<not> isPasswordValid
                      then (Inl (UnauthorizedException ''Invalid email or password''), r2)
                      else issue_token env u r2)) = (Inr resp, r')"
    by (auto split: if_splits)
  from findByField_result [OF f] have r1: "rows r1 = rows r"
    by simp
  from bind_Inr [OF k] obtain found r2 where
    o: "repo_findOne User ?o r1 = (Inr found, r2)" and
    k2: "(case found of
               None \<Rightarrow> (Inl (UnauthorizedException ''Invalid email or password''), r2)
             | Some u \<Rightarrow>
                 (case bcrypt_compare env (login_password dto) (password u) of
                    Inl e \<Rightarrow> (Inl e, r2)
                  | Inr isPasswordValid \<Rightarrow>
                      if \<not> isPasswordValid
                      then (Inl (UnauthorizedException ''Invalid email or password''), r2)
                      else issue_token env u r2)) = (Inr resp, r')"
    by auto
  from k2 obtain u where u: "found = Some u" and t: "issue_token env u r2 = (Inr resp, r')"
    by (auto split: option.splits sum.splits if_splits)
  from repo_findOne_Some [OF o [unfolded u]] have "email u = ?l" "rows r2 = rows r1"
    by (simp_all add: user_match_email)
  with issue_token_Inr [OF t] r1 show ?thesis
    by auto
qed

lemma snd_bind:
  "snd (bind m f) = (case fst m of Inl e \<Rightarrow> snd m | Inr v \<Rightarrow> snd (f v (snd m)))"
  by (cases m) (auto simp: bind_def split: sum.splits)

lemma insert_and_sign_calls:
  "calls (snd (bind (create E d r) (issue_token env))) = calls r @ [(''save'', [])]"
  using create_calls [of E d r]
  by (simp add: snd_bind issue_token_snd split: sum.splits)

lemma snd_catch:
  "snd (case res of (Inl error, r2) \<Rightarrow> (if c error then (Inl (a error), r2) else (Inl (b error), r2))
                  | (Inr response, r2) \<Rightarrow> (Inr response, r2)) = snd res"
  by (cases res) (auto split: sum.splits)

lemma register_calls:
  "calls (snd (register env dto r)) =
     calls r @ [(''count'', [Eq ''email'' (StrV (toLowerCase (reg_email dto)))])] \<or>
   calls (snd (register env dto r)) =
     calls r @ [(''count'', [Eq ''email'' (StrV (toLowerCase (reg_email dto)))]), (''save'', [])]"
proof -
  let ?w = "[Eq ''email'' (StrV (toLowerCase (reg_email dto)))]"
  let ?x = "exists User ''email'' (StrV (toLowerCase (reg_email dto))) r"
  have c: "calls (snd ?x) = calls r @ [(''count'', ?w)]"
    by (rule exists_frame)
  show ?thesis
  proof (cases "fst ?x")
    case (Inl e)
    then show ?thesis
      using c unfolding register_def by (simp add: snd_bind)
  next
    case (Inr existing)
    show ?thesis
    proof (cases "existing \<or> isl (bcrypt_hash env (reg_password dto) 12)")
      case True
      then show ?thesis
        using c Inr unfolding register_def
        by (auto simp: snd_bind isl_def split: sum.splits)
    next
      case False
      then obtain h where h: "bcrypt_hash env (reg_password dto) 12 = Inr h"
        by (cases "bcrypt_hash env (reg_password dto) 12") auto
      from False Inr h have "snd (register env dto r) =
          snd (bind (create User \<lparr>d_email = Some (toLowerCase (reg_email dto)),
                                   d_password = Some h\<rparr> (snd ?x)) (issue_token env))"
        unfolding register_def by (simp add: snd_bind snd_catch)
      then show ?thesis
        using c by (simp add: insert_and_sign_calls)
    qed
  qed
qed

lemma snd_login_tail:
  "snd (case found of
          None \<Rightarrow> (Inl a, r2)
        | Some u \<Rightarrow>
            (case cmp u of
               Inl e \<Rightarrow> (Inl e, r2)
             | Inr ok \<Rightarrow> if \<not> ok then (Inl b, r2) else issue_token env u r2)) = r2"
  by (auto simp: issue_token_snd split: option.splits sum.splits)

lemma login_calls:
  "calls (snd (login env dto r)) =
     calls r @ [(''find'', [Eq ''email'' (StrV (toLowerCase (login_email dto)))])] \<or>
   calls (snd (login env dto r)) =
     calls r @ [(''find'', [Eq ''email'' (StrV (toLowerCase (login_email dto)))]),
                (''findOne'', [Eq ''email'' (StrV (toLowerCase (login_email dto)))])]"
proof -
  let ?w = "[Eq ''email'' (StrV (toLowerCase (login_email dto)))]"
  let ?x = "findByField User ''email'' (StrV (toLowerCase (login_email dto))) no_options r"
  let ?o = "no_options\<lparr>fo_where := ?w\<rparr>"
  have c: "calls (snd ?x) = calls r @ [(''find'', ?w)]"
    by (rule findByField_frame)
  have d: "calls (snd (repo_findOne User ?o (snd ?x))) = calls (snd ?x) @ [(''findOne'', ?w)]"
    by (simp add: repo_findOne_frame)
  show ?thesis
  proof (cases "fst ?x")
    case (Inl e)
    then show ?thesis
      using c unfolding login_def by (simp add: snd_bind)
  next
    case (Inr users)
    show ?thesis
    proof (cases "users = []")
      case True
      then show ?thesis
        using c Inr unfolding login_def by (simp add: snd_bind)
    next
      case False
      then have "snd (login env dto r) = snd (repo_findOne User ?o (snd ?x))"
        using Inr unfolding login_def
        by (simp add: snd_bind snd_login_tail split: sum.splits)
      then show ?thesis
        using c d by simp
    qed
  qed
qed

text \<open>
  C6, as the code has it. \<open>register\<close> and \<open>login\<close> lower-case the email and do nothing else
  to it (no trimming). Two requests whose emails differ only in casing have the same outcome
  on the same store. A successful \<open>register\<close> stores one new account whose email is the
  lower-cased input and returns that email; a successful \<open>login\<close> returns the lower-cased
  input and changes no row. The storage calls are the existence check and then the insert of
  \<open>register\<close>, the two look-ups of \<open>login\<close>; the only condition any of them is given is
  the lower-cased email.
\<close>

theorem email_lowercased:
  "(toLowerCase (reg_email d1) = toLowerCase (reg_email d2) \<and> reg_password d1 = reg_password d2 \<longrightarrow>
      register env d1 r = register env d2 r) \<and>
   (toLowerCase (login_email l1) = toLowerCase (login_email l2) \<and>
    login_password l1 = login_password l2 \<longrightarrow>
      login env l1 r = login env l2 r) \<and>
   (\<forall>resp. fst (register env dto r) = Inr resp \<longrightarrow>
      au_email (resp_user resp) = toLowerCase (reg_email dto) \<and>
      (\<exists>u. rows (snd (register env dto r)) = rows r @ [u] \<and>
           email u = toLowerCase (reg_email dto) \<and> id' u = au_id (resp_user resp))) \<and>
   (\<forall>resp. fst (login env ldto r) = Inr resp \<longrightarrow>
      au_email (resp_user resp) = toLowerCase (login_email ldto) \<and>
      rows (snd (login env ldto r)) = rows r) \<and>
   (calls (snd (register env dto r)) =
      calls r @ [(''count'', [Eq ''email'' (StrV (toLowerCase (reg_email dto)))])] \<or>
    calls (snd (register env dto r)) =
      calls r @ [(''count'', [Eq ''email'' (StrV (toLowerCase (reg_email dto)))]), (''save'', [])]) \<and>
   (calls (snd (login env ldto r)) =
      calls r @ [(''find'', [Eq ''email'' (StrV (toLowerCase (login_email ldto)))])] \<or>
    calls (snd (login env ldto r)) =
      calls r @ [(''find'', [Eq ''email'' (StrV (toLowerCase (login_email ldto)))]),
                 (''findOne'', [Eq ''email'' (StrV (toLowerCase (login_email ldto)))])])"
proof -
  have 1: "toLowerCase (reg_email d1) = toLowerCase (reg_email d2) \<and>
           reg_password d1 = reg_password d2 \<longrightarrow> register env d1 r = register env d2 r"
  proof (intro impI, elim conjE)
    assume a: "toLowerCase (reg_email d1) = toLowerCase (reg_email d2)"
      and b: "reg_password d1 = reg_password d2"
    show "register env d1 r = register env d2 r"
      unfolding register_def a b by (rule refl)
  qed
  have 2: "toLowerCase (login_email l1) = toLowerCase (login_email l2) \<and>
           login_password l1 = login_password l2 \<longrightarrow> login env l1 r = login env l2 r"
  proof (intro impI, elim conjE)
    assume a: "toLowerCase (login_email l1) = toLowerCase (login_email l2)"
      and b: "login_password l1 = login_password l2"
    show "login env l1 r = login env l2 r"
      unfolding login_def a b by (rule refl)
  qed
  have 3: "\<forall>resp. fst (register env dto r) = Inr resp \<longrightarrow>
      au_email (resp_user resp) = toLowerCase (reg_email dto) \<and>
      (\<exists>u. rows (snd (register env dto r)) = rows r @ [u] \<and>
           email u = toLowerCase (reg_email dto) \<and> id' u = au_id (resp_user resp))"
  proof (intro allI impI)
    fix resp
    assume "fst (register env dto r) = Inr resp"
    then have "register env dto r = (Inr resp, snd (register env dto r))"
      by (metis prod.collapse)
    then show "au_email (resp_user resp) = toLowerCase (reg_email dto) \<and>
      (\<exists>u. rows (snd (register env dto r)) = rows r @ [u] \<and>
           email u = toLowerCase (reg_email dto) \<and> id' u = au_id (resp_user resp))"
      by (rule register_Inr)
  qed
  have 4: "\<forall>resp. fst (login env ldto r) = Inr resp \<longrightarrow>
      au_email (resp_user resp) = toLowerCase (login_email ldto) \<and>
      rows (snd (login env ldto r)) = rows r"
  proof (intro allI impI)
    fix resp
    assume "fst (login env ldto r) = Inr resp"
    then have "login env ldto r = (Inr resp, snd (login env ldto r))"
      by (metis prod.collapse)
    then show "au_email (resp_user resp) = toLowerCase (login_email ldto) \<and>
      rows (snd (login env ldto r)) = rows r"
      by (rule login_Inr)
  qed
  show ?thesis
    by (intro conjI) (rule 1, rule 2, rule 3, rule 4, rule register_calls, rule login_calls)
qed

theorem email_lowercased_witness:
  "(toLowerCase (reg_email mixed_dto) = toLowerCase (reg_email carol_dto) \<and>
    reg_password mixed_dto = reg_password carol_dto) \<and>
   register test_env mixed_dto accounts = register test_env carol_dto accounts \<and>
   (toLowerCase (login_email shout_login) = toLowerCase (login_email alice_login) \<and>
    login_password shout_login = login_password alice_login) \<and>
   login test_env shout_login accounts = login test_env alice_login accounts \<and>
   fst (register test_env mixed_dto accounts) =
     Inr \<lparr>resp_user = \<lparr>au_id = 2, au_email = ''carol@example.com''\<rparr>,
          access_token = ''jwt-token''\<rparr> \<and>
   (\<exists>u. rows (snd (register test_env mixed_dto accounts)) = rows accounts @ [u] \<and>
        email u = toLowerCase (reg_email mixed_dto) \<and> id' u = 2) \<and>
   fst (login test_env shout_login accounts) =
     Inr \<lparr>resp_user = \<lparr>au_id = 1, au_email = ''alice@example.com''\<rparr>,
          access_token = ''jwt-token''\<rparr> \<and>
   rows (snd (login test_env shout_login accounts)) = rows accounts"
proof -
  let ?carol = "\<lparr>resp_user = \<lparr>au_id = 2, au_email = ''carol@example.com''\<rparr>,
                access_token = ''jwt-token''\<rparr>"
  let ?alice = "\<lparr>resp_user = \<lparr>au_id = 1, au_email = ''alice@example.com''\<rparr>,
                access_token = ''jwt-token''\<rparr>"
  note t = email_lowercased [where env = test_env and r = accounts]
  have h1: "toLowerCase (reg_email mixed_dto) = toLowerCase (reg_email carol_dto) \<and>
            reg_password mixed_dto = reg_password carol_dto"
    by code_simp
  have c1: "register test_env mixed_dto accounts = register test_env carol_dto accounts"
    by (rule t [THEN conjunct1, rule_format, OF h1])
  have h2: "toLowerCase (login_email shout_login) = toLowerCase (login_email alice_login) \<and>
            login_password shout_login = login_password alice_login"
    by code_simp
  have c2: "login test_env shout_login accounts = login test_env alice_login accounts"
    by (rule t [THEN conjunct2, THEN conjunct1, rule_format, OF h2])
  have f3: "fst (register test_env mixed_dto accounts) = Inr ?carol"
    by code_simp
  from t [THEN conjunct2, THEN conjunct2, THEN conjunct1, rule_format, OF f3]
  have c3: "\<exists>u. rows (snd (register test_env mixed_dto accounts)) = rows accounts @ [u] \<and>
              email u = toLowerCase (reg_email mixed_dto) \<and> id' u = 2"
    by simp
  have f4: "fst (login test_env shout_login accounts) = Inr ?alice"
    by code_simp
  from t [THEN conjunct2, THEN conjunct2, THEN conjunct2, THEN conjunct1, rule_format, OF f4]
  have c4: "rows (snd (login test_env shout_login accounts)) = rows accounts"
    by simp
  show ?thesis
    by (intro conjI) (rule h1 [THEN conjunct1], rule h1 [THEN conjunct2], rule c1,
        rule h2 [THEN conjunct1], rule h2 [THEN conjunct2], rule c2, rule f3, rule c3,
        rule f4, rule c4)
qed

text \<open>
  C6 as stated fails on the trimming: an email with a leading blank is stored and returned
  with the blank.
\<close>

theorem register_no_trim:
  "fst (register test_env padded_dto accounts) =
     Inr \<lparr>resp_user = \<lparr>au_id = 2, au_email = '' carol@example.com''\<rparr>,
          access_token = ''jwt-token''\<rparr> \<and>
   map email (rows (snd (register test_env padded_dto accounts))) =
     [''alice@example.com'', '' carol@example.com''] \<and>
   trim (toLowerCase (reg_email padded_dto)) = ''carol@example.com''"
  by code_simp

section \<open>What an update can change\<close>

lemma bind_post:
  assumes "\<And>e r1. m = (Inl e, r1) \<Longrightarrow> P r1"
    and "\<And>a r1. m = (Inr a, r1) \<Longrightarrow> P (snd (f a r1))"
  shows "P (snd (bind m f))"
  using assms by (cases m) (auto simp: bind_def split: sum.splits)

lemma snd_rethrow:
  "snd (case res of (Inl error, r') \<Rightarrow> (Inl (g error), r') | (Inr response, r') \<Rightarrow> (Inr response, r'))
     = snd res"
  by (cases res) (auto split: sum.splits)

lemma fst_rethrow_Inr:
  "fst (case res of (Inl error, r') \<Rightarrow> (Inl (g error), r') | (Inr response, r') \<Rightarrow> (Inr response, r'))
     = Inr v \<longleftrightarrow> fst res = Inr v"
  by (cases res) (auto split: sum.splits)

lemma findByIdAndUser_result:
  assumes "findByIdAndUser i u r = (res, r1)"
  shows "rows r1 = rows r \<and>
         (\<forall>b. res = Inr (Some b) \<longrightarrow> b \<in> set (rows r) \<and> id' b = i \<and> userId b = u)"
proof -
  let ?w = "[Eq ''id'' (IntV i), Eq ''userId'' (IntV u)]"
  show ?thesis
  proof (cases rule: storage_call_cases [of "''findOneBy''" ?w r])
    case (rejected e r')
    with assms show ?thesis
      by (auto simp: findByIdAndUser_def repo_findOneBy_def try_catch_def)
  next
    case (served r')
    with assms have v: "res = Inr (find (matches (column Book) ?w) (rows r))" "r1 = r'"
      by (auto simp: findByIdAndUser_def repo_findOneBy_def try_catch_def)
    have some: "b \<in> set (rows r) \<and> id' b = i \<and> userId b = u"
      if "find (matches (column Book) ?w) (rows r) = Some b" for b
      using find_matches [OF that] by (simp add: book_match_id_user)
    show ?thesis
    proof (rule conjI)
      show "rows r1 = rows r"
        using v(2) served(2) by simp
      show "\<forall>b. res = Inr (Some b) \<longrightarrow> b \<in> set (rows r) \<and> id' b = i \<and> userId b = u"
      proof (rule allI, rule impI)
        fix b
        assume "res = Inr (Some b)"
        with v(1) have "find (matches (column Book) ?w) (rows r) = Some b"
          by simp
        then show "b \<in> set (rows r) \<and> id' b = i \<and> userId b = u"
          by (rule some)
      qed
    qed
  qed
qed

lemma titleExistsForUser_result:
  assumes "titleExistsForUser u t r = (res, r1)"
  shows "rows r1 = rows r"
proof -
  have "snd (titleExistsForUser u t r) =
          snd (repo_count Book [Eq ''userId'' (IntV u), Eq ''title'' (StrV t)] r)"
    by (cases "repo_count Book [Eq ''userId'' (IntV u), Eq ''title'' (StrV t)] r")
      (auto simp: titleExistsForUser_def bind_def split: sum.splits)
  with assms show ?thesis
    using repo_count_frame(1) [of Book _ r] by simp
qed

lemma book_match_id: "matches (column Book) (by_id i) b \<longleftrightarrow> id' b = i"
  by (simp add: matches_def by_id_def Book_def book_column_def)

lemma update_result:
  assumes "update Book i d r = (res, r1)"
  shows "rows r1 = rows r \<or>
         rows r1 = map (\<lambda>x. if id' x = i then book_assign d x else x) (rows r)"
proof (cases rule: storage_call_cases [of "''update''" "by_id i" r])
  case (rejected e r')
  with assms show ?thesis
    by (auto simp: update_def repo_update_def try_catch_def)
next
  case (served r')
  have a: "assign Book = book_assign"
    by (simp add: Book_def)
  from assms served(1,2) show ?thesis
    by (auto simp: update_def repo_update_def try_catch_def Let_def book_match_id a
        split: if_splits)
qed

lemma delete_result:
  assumes "delete Book i r = (res, r1)"
  shows "rows r1 = rows r \<or> rows r1 = filter (\<lambda>x. id' x \<noteq> i) (rows r)"
proof (cases rule: storage_call_cases [of "''delete''" "by_id i" r])
  case (rejected e r')
  with assms show ?thesis
    by (auto simp: delete_def repo_delete_def try_catch_def)
next
  case (served r')
  from assms served(1,2) show ?thesis
    by (auto simp: delete_def repo_delete_def try_catch_def book_match_id)
qed

lemma create_result:
  assumes "create E d r = (res, r1)"
  shows "rows r1 = rows r \<or>
         (\<exists>x. res = Inr x \<and> rows r1 = rows r @ [x] \<and> build E (nextId r) d = Some x)"
proof (cases res)
  case (Inl e)
  show ?thesis
  proof (cases rule: storage_call_cases [of "''save''" "[]" r])
    case (rejected e' r')
    with assms show ?thesis
      by (auto simp: create_def repo_save_def try_catch_def)
  next
    case (served r')
    with assms Inl show ?thesis
      by (auto simp: create_def repo_save_def try_catch_def insert_row_def Let_def
          split: option.splits if_splits)
  qed
next
  case (Inr x)
  with create_Inr [of E d r x r1] assms show ?thesis
    by simp
qed

lemma check_title_result:
  assumes "check_title usr dto b r = (res, r2)"
  shows "rows r2 = rows r"
proof -
  have "rows (snd (check_title usr dto b r)) = rows r"
    unfolding check_title_def
    by (auto intro!: bind_post [where P = "\<lambda>r'. rows r' = rows r"]
        dest: titleExistsForUser_result)
  with assms show ?thesis by simp
qed

lemma apply_update_rows:
  "rows (snd (apply_update usr i dto r)) = rows r \<or>
   rows (snd (apply_update usr i dto r)) =
     map (\<lambda>x. if id' x = i then book_assign (dto\<lparr>d_userId := None\<rparr>) x else x) (rows r)"
  (is "?P (snd _)")
  unfolding apply_update_def Let_def
proof (rule bind_post)
  fix e r1
  assume "update Book i (dto\<lparr>d_userId := None\<rparr>) r = (Inl e, r1)"
  from update_result [OF this] show "?P r1" .
next
  fix a r1
  assume "update Book i (dto\<lparr>d_userId := None\<rparr>) r = (Inr a, r1)"
  from update_result [OF this] have u: "?P r1" .
  show "?P (snd (bind (findByIdAndUser i (id' usr) r1)
                  (\<lambda>updatedBook r4.
                     (Inr (successResponse updatedBook ''Book updated successfully''), r4))))"
  proof (rule bind_post)
    fix e r2
    assume "findByIdAndUser i (id' usr) r1 = (Inl e, r2)"
    from findByIdAndUser_result [OF this] u show "?P r2" by simp
  next
    fix b r2
    assume "findByIdAndUser i (id' usr) r1 = (Inr b, r2)"
    from findByIdAndUser_result [OF this] u
    show "?P (snd (Inr (successResponse b ''Book updated successfully''), r2))" by simp
  qed
qed

lemma updateBook_rows:
  "rows (snd (updateBook usr i dto r)) = rows r \<or>
   (rows (snd (updateBook usr i dto r)) =
      map (\<lambda>x. if id' x = i then book_assign (dto\<lparr>d_userId := None\<rparr>) x else x) (rows r) \<and>
    (\<exists>b \<in> set (rows r). id' b = i \<and> userId b = id' usr))"
  (is "?P (snd _)")
  unfolding updateBook_def snd_rethrow
proof (rule bind_post)
  fix e r1
  assume "findByIdAndUser i (id' usr) r = (Inl e, r1)"
  from findByIdAndUser_result [OF this] show "?P r1" by simp
next
  fix found r1
  assume f: "findByIdAndUser i (id' usr) r = (Inr found, r1)"
  from findByIdAndUser_result [OF f] have r1: "rows r1 = rows r"
    and fb: "\<forall>b. found = Some b \<longrightarrow> b \<in> set (rows r) \<and> id' b = i \<and> userId b = id' usr"
    by simp_all
  show "?P (snd (case found of
                   None \<Rightarrow> (Inl (throwErrorResponse ''Book not found'' 404), r1)
                 | Some existingBook \<Rightarrow>
                     bind (check_title usr dto existingBook r1)
                       (\<lambda>_ r2. apply_update usr i dto r2)))"
  proof (cases found)
    case None
    with r1 show ?thesis by simp
  next
    case (Some b)
    with fb have ex: "\<exists>b \<in> set (rows r). id' b = i \<and> userId b = id' usr"
      by blast
    have "?P (snd (bind (check_title usr dto b r1) (\<lambda>_ r2. apply_update usr i dto r2)))"
    proof (rule bind_post)
      fix e r2
      assume "check_title usr dto b r1 = (Inl e, r2)"
      from check_title_result [OF this] r1 show "?P r2" by simp
    next
      fix a r2
      assume "check_title usr dto b r1 = (Inr a, r2)"
      from check_title_result [OF this] r1 have "rows r2 = rows r" by simp
      with apply_update_rows [of usr i dto r2] ex
      show "?P (snd (apply_update usr i dto r2))" by auto
    qed
    with Some show ?thesis by simp
  qed
qed

lemma map_field_update:
  "(\<And>x. f (g x) = f x) \<Longrightarrow> map f (map (\<lambda>x. if P x then g x else x) xs) = map f xs"
  by (induction xs) auto

lemma book_assign_keeps:
  "userId (book_assign (d\<lparr>d_userId := None\<rparr>) x) = userId x"
  "id' (book_assign d x) = id' x"
  "d_title d = None \<Longrightarrow> title (book_assign (d\<lparr>d_userId := None\<rparr>) x) = title x"
  "d_author d = None \<Longrightarrow> author (book_assign (d\<lparr>d_userId := None\<rparr>) x) = author x"
  "d_description d = None \<Longrightarrow>
     description (book_assign (d\<lparr>d_userId := None\<rparr>) x) = description x"
  "d_year d = None \<Longrightarrow> year (book_assign (d\<lparr>d_userId := None\<rparr>) x) = year x"
  "d_coverImageUrl d = None \<Longrightarrow>
     coverImageUrl (book_assign (d\<lparr>d_userId := None\<rparr>) x) = coverImageUrl x"
  by (simp_all add: book_assign_def)

text \<open>
  C8. Whatever the payload of \<open>updateBook\<close>, a \<open>userId\<close> in it included, and whatever the
  outcome, every row of the table has the owner and the id it had before; a field that the
  payload does not name has in every row the value it had before; and a row with another id
  than the one updated is the row it was.
\<close>

theorem updateBook_keeps_owner:
  "map userId (rows (snd (updateBook usr i dto r))) = map userId (rows r) \<and>
   map id' (rows (snd (updateBook usr i dto r))) = map id' (rows r) \<and>
   (d_title dto = None \<longrightarrow>
      map title (rows (snd (updateBook usr i dto r))) = map title (rows r)) \<and>
   (d_author dto = None \<longrightarrow>
      map author (rows (snd (updateBook usr i dto r))) = map author (rows r)) \<and>
   (d_description dto = None \<longrightarrow>
      map description (rows (snd (updateBook usr i dto r))) = map description (rows r)) \<and>
   (d_year dto = None \<longrightarrow>
      map year (rows (snd (updateBook usr i dto r))) = map year (rows r)) \<and>
   (d_coverImageUrl dto = None \<longrightarrow>
      map coverImageUrl (rows (snd (updateBook usr i dto r))) = map coverImageUrl (rows r)) \<and>
   (\<forall>n < length (rows r). id' (rows r ! n) \<noteq> i \<longrightarrow>
      rows (snd (updateBook usr i dto r)) ! n = rows r ! n)"
proof -
  let ?r' = "snd (updateBook usr i dto r)"
  let ?g = "book_assign (dto\<lparr>d_userId := None\<rparr>)"
  let ?m = "map (\<lambda>x. if id' x = i then ?g x else x) (rows r)"
  from updateBook_rows [of usr i dto r]
  have c: "rows ?r' = rows r \<or> rows ?r' = ?m"
    by blast
  have 1: "map userId ?m = map userId (rows r)"
    by (rule map_field_update) (rule book_assign_keeps)
  have 2: "map id' ?m = map id' (rows r)"
    by (rule map_field_update) (rule book_assign_keeps)
  have 3: "d_title dto = None \<Longrightarrow> map title ?m = map title (rows r)"
    by (rule map_field_update) (rule book_assign_keeps)
  have 4: "d_author dto = None \<Longrightarrow> map author ?m = map author (rows r)"
    by (rule map_field_update) (rule book_assign_keeps)
  have 5: "d_description dto = None \<Longrightarrow> map description ?m = map description (rows r)"
    by (rule map_field_update) (rule book_assign_keeps)
  have 6: "d_year dto = None \<Longrightarrow> map year ?m = map year (rows r)"
    by (rule map_field_update) (rule book_assign_keeps)
  have 7: "d_coverImageUrl dto = None \<Longrightarrow> map coverImageUrl ?m = map coverImageUrl (rows r)"
    by (rule map_field_update) (rule book_assign_keeps)
  have 8: "\<forall>n < length (rows r). id' (rows r ! n) \<noteq> i \<longrightarrow> ?m ! n = rows r ! n"
    by simp
  from c show ?thesis
  proof
    assume "rows ?r' = rows r"
    then show ?thesis by simp
  next
    assume "rows ?r' = ?m"
    then show ?thesis
      using 1 2 3 4 5 6 7 8 by presburger
  qed
qed

theorem updateBook_keeps_owner_witness:
  "map userId (rows (snd (updateBook alice 3 hijack_dto shelf))) = [1, 2, 1] \<and>
   map userId (rows shelf) = [1, 2, 1] \<and>
   map title (rows (snd (updateBook alice 3 hijack_dto shelf))) =
     [''The Great Gatsby'', ''The Great Gatsby'', ''Dune Messiah''] \<and>
   d_author hijack_dto = None \<and>
   map author (rows (snd (updateBook alice 3 hijack_dto shelf))) = map author (rows shelf) \<and>
   (1 < length (rows shelf) \<and> id' (rows shelf ! 1) \<noteq> 3) \<and>
   rows (snd (updateBook alice 3 hijack_dto shelf)) ! 1 = rows shelf ! 1"
proof -
  note t = updateBook_keeps_owner [of alice 3 hijack_dto shelf]
  have u: "map userId (rows shelf) = [1, 2, 1]"
    by code_simp
  have a: "map userId (rows (snd (updateBook alice 3 hijack_dto shelf))) = [1, 2, 1]"
    using t [THEN conjunct1] unfolding u .
  have b: "map title (rows (snd (updateBook alice 3 hijack_dto shelf))) =
             [''The Great Gatsby'', ''The Great Gatsby'', ''Dune Messiah'']"
    by code_simp
  have h: "d_author hijack_dto = None"
    by code_simp
  have c: "map author (rows (snd (updateBook alice 3 hijack_dto shelf))) = map author (rows shelf)"
    by (rule t [THEN conjunct2, THEN conjunct2, THEN conjunct2, THEN conjunct1, rule_format, OF h])
  have n: "1 < length (rows shelf) \<and> id' (rows shelf ! 1) \<noteq> 3"
    by code_simp
  have d: "rows (snd (updateBook alice 3 hijack_dto shelf)) ! 1 = rows shelf ! 1"
    by (rule t [THEN conjunct2, THEN conjunct2, THEN conjunct2, THEN conjunct2, THEN conjunct2,
          THEN conjunct2, THEN conjunct2, rule_format, OF n [THEN conjunct1] n [THEN conjunct2]])
  show ?thesis
    by (intro conjI) (rule a, rule u, rule b, rule h, rule c, rule n [THEN conjunct1],
        rule n [THEN conjunct2], rule d)
qed

section \<open>Owner scoping\<close>

lemma book_match_owner:
  "matches (column Book) (Eq ''userId'' (IntV u) # w) b \<Longrightarrow> userId b = u"
  by (simp add: matches_def Book_def book_column_def)

lemma owned_by_filter:
  "owned_by u (filter (matches (column Book) (Eq ''userId'' (IntV u) # w)) xs)"
  by (auto simp: owned_by_def list_all_iff dest: book_match_owner)

lemma owned_by_subset:
  "set bs \<subseteq> {x \<in> set xs. matches (column Book) (Eq ''userId'' (IntV u) # w) x} \<Longrightarrow> owned_by u bs"
  by (auto simp: owned_by_def list_all_iff dest: book_match_owner)

lemma repo_getMany_result:
  assumes "repo_getMany E w r = (res, r')"
  shows "rows r' = rows r \<and> (\<forall>bs. res = Inr bs \<longrightarrow> bs = filter (matches (column E) w) (rows r))"
  using assms
  by (cases rule: storage_call_cases [of "''getMany''" w r]) (auto simp: repo_getMany_def)

lemma repo_findBy_result:
  assumes "repo_findBy E w r = (res, r')"
  shows "rows r' = rows r \<and> (\<forall>bs. res = Inr bs \<longrightarrow> bs = filter (matches (column E) w) (rows r))"
  using assms
  by (cases rule: storage_call_cases [of "''findBy''" w r]) (auto simp: repo_findBy_def)

lemma repo_find_result:
  assumes "repo_find E opts r = (res, r')"
  shows "rows r' = rows r \<and>
         (\<forall>bs. res = Inr bs \<longrightarrow>
            set bs \<subseteq> {x \<in> set (rows r). matches (column E) (fo_where opts) x})"
proof (cases rule: storage_call_cases [of "''find''" "fo_where opts" r])
  case (rejected e r1)
  with assms show ?thesis by (auto simp: repo_find_def)
next
  case (served r1)
  with assms set_select_rows [of E opts r1] show ?thesis
    by (auto simp: repo_find_def)
qed

lemma repo_findAndCount_result:
  assumes "repo_findAndCount E opts r = (res, r')"
  shows "rows r' = rows r \<and>
         (\<forall>bs n. res = Inr (bs, n) \<longrightarrow>
            set bs \<subseteq> {x \<in> set (rows r). matches (column E) (fo_where opts) x})"
proof (cases rule: storage_call_cases [of "''findAndCount''" "fo_where opts" r])
  case (rejected e r1)
  with assms show ?thesis by (auto simp: repo_findAndCount_def)
next
  case (served r1)
  with assms set_select_rows [of E opts r1] show ?thesis
    by (auto simp: repo_findAndCount_def)
qed

lemma try_catch_result:
  "try_catch operation res = (out, r') \<Longrightarrow>
     r' = snd res \<and> (\<forall>v. out = Inr v \<longrightarrow> fst res = Inr v)"
  by (cases res) (auto simp: try_catch_def split: sum.splits)

lemma searchByTitleForUser_result:
  assumes "searchByTitleForUser u t r = (res, r')"
  shows "rows r' = rows r \<and> (\<forall>bs. res = Inr bs \<longrightarrow> owned_by u bs)"
proof -
  let ?w = "[Eq ''userId'' (IntV u),
             Or (ILike ''title'' (contains t)) (ILike ''author'' (contains t))]"
  obtain q r1 where g: "repo_getMany Book ?w r = (q, r1)"
    by (cases "repo_getMany Book ?w r")
  from try_catch_result [OF assms [unfolded searchByTitleForUser_def g]]
    repo_getMany_result [OF g] owned_by_filter [of u _ "rows r"]
  show ?thesis by auto
qed

lemma findByAuthorForUser_result:
  assumes "findByAuthorForUser u a r = (res, r')"
  shows "rows r' = rows r \<and> (\<forall>bs. res = Inr bs \<longrightarrow> owned_by u bs)"
proof -
  let ?w = "[Eq ''userId'' (IntV u), ILike ''author'' (contains a)]"
  obtain q r1 where g: "repo_getMany Book ?w r = (q, r1)"
    by (cases "repo_getMany Book ?w r")
  from try_catch_result [OF assms [unfolded findByAuthorForUser_def g]]
    repo_getMany_result [OF g] owned_by_filter [of u _ "rows r"]
  show ?thesis by auto
qed

lemma findByYearForUser_result:
  assumes "findByYearForUser u y r = (res, r')"
  shows "rows r' = rows r \<and> (\<forall>bs. res = Inr bs \<longrightarrow> owned_by u bs)"
proof -
  let ?w = "[Eq ''userId'' (IntV u), Eq ''year'' (IntV y)]"
  obtain q r1 where g: "repo_findBy Book ?w r = (q, r1)"
    by (cases "repo_findBy Book ?w r")
  from try_catch_result [OF assms [unfolded findByYearForUser_def g]]
    repo_findBy_result [OF g] owned_by_filter [of u _ "rows r"]
  show ?thesis by auto
qed

lemma findByUser_result:
  assumes "findByUser u r = (res, r')"
  shows "rows r' = rows r \<and> (\<forall>bs. res = Inr bs \<longrightarrow> owned_by u bs)"
proof -
  let ?o = "no_options\<lparr>fo_where := [Eq ''userId'' (IntV u)]\<rparr>"
  obtain q r1 where g: "repo_find Book ?o r = (q, r1)"
    by (cases "repo_find Book ?o r")
  from try_catch_result [OF assms [unfolded findByUser_def findByField_def g]]
    repo_find_result [OF g] owned_by_subset [of _ "rows r" u "[]"]
  show ?thesis by auto
qed

lemma getPaginatedByUser_result:
  assumes "getPaginatedByUser u popts fopts r = (res, r')"
  shows "rows r' = rows r \<and> (\<forall>p. res = Inr p \<longrightarrow> owned_by u (data p))"
proof -
  let ?f = "fopts\<lparr>fo_where := [Eq ''userId'' (IntV u)]\<rparr>"
  let ?q = "query_options popts ?f"
  have w: "fo_where ?q = [Eq ''userId'' (IntV u)]"
    by (simp add: query_options_where)
  obtain q r1 where g: "repo_findAndCount Book ?q r = (q, r1)"
    by (cases "repo_findAndCount Book ?q r")
  from repo_findAndCount_result [OF g] have r1: "rows r1 = rows r"
    and sub: "\<forall>bs n. q = Inr (bs, n) \<longrightarrow> owned_by u bs"
    unfolding w using owned_by_subset [of _ "rows r" u "[]"] by blast+
  obtain b r2 where body: "getPaginated_body Book popts ?f r = (b, r2)"
    by (cases "getPaginated_body Book popts ?f r")
  have "rows r2 = rows r \<and> (\<forall>p. b = Inr p \<longrightarrow> owned_by u (data p))"
    using body g r1 sub
    by (auto simp: getPaginated_body_def Let_def split: if_splits sum.splits prod.splits)
  with try_catch_result [OF assms [unfolded getPaginatedByUser_def getPaginated_def body]]
  show ?thesis by auto
qed

section \<open>The endpoints of the controller\<close>

lemma bind_result:
  assumes "bind m f = (res, r')"
  shows "(\<exists>e. m = (Inl e, r') \<and> res = Inl e) \<or> (\<exists>a r1. m = (Inr a, r1) \<and> f a r1 = (res, r'))"
  using assms by (cases m) (auto simp: bind_def split: sum.splits)

lemma catch_result:
  assumes "(case body of (Inl error, r') \<Rightarrow> (Inl (g error), r')
                        | (Inr response, r') \<Rightarrow> (Inr response, r')) = (res, r2)"
  shows "r2 = snd body \<and> (\<forall>v. res = Inr v \<longrightarrow> fst body = Inr v)"
  using assms by (cases body) (auto split: sum.splits)

lemma combine_result:
  assumes "r' = snd body \<and> (\<forall>v. res = Inr v \<longrightarrow> fst body = Inr v)"
    and "rows (snd body) = rows r \<and> (\<forall>resp. fst body = Inr resp \<longrightarrow> P resp)"
  shows "rows r' = rows r \<and> (\<forall>resp. res = Inr resp \<longrightarrow> P resp)"
  using assms by auto

lemma fst_Inr_pair: "fst x = Inr v \<Longrightarrow> x = (Inr v, snd x)"
  by (cases x) simp

lemma list_response_result:
  assumes "\<And>x r1. m = (x, r1) \<Longrightarrow> rows r1 = rows r \<and> (\<forall>bs. x = Inr bs \<longrightarrow> owned_by u bs)"
  shows "rows (snd (bind m (\<lambda>books r'. (Inr (successResponse books msg), r')))) = rows r \<and>
         (\<forall>resp. fst (bind m (\<lambda>books r'. (Inr (successResponse books msg), r'))) = Inr resp \<longrightarrow>
            owned_by u (payload resp))"
proof (cases m)
  case (Pair x r1)
  from assms [OF Pair] show ?thesis
    unfolding Pair by (cases x) (auto simp: bind_def successResponse_def)
qed

lemma page_response_result:
  assumes "\<And>x r1. m = (x, r1) \<Longrightarrow>
             rows r1 = rows r \<and> (\<forall>p. x = Inr p \<longrightarrow> owned_by u (data p))"
  shows "rows (snd (bind m (\<lambda>result r'.
           (Inr (successResponseWithPagination (data result) (pagination result) msg), r')))) =
           rows r \<and>
         (\<forall>resp. fst (bind m (\<lambda>result r'.
            (Inr (successResponseWithPagination (data result) (pagination result) msg), r'))) =
            Inr resp \<longrightarrow> owned_by u (payload resp))"
proof (cases m)
  case (Pair x r1)
  from assms [OF Pair] show ?thesis
    unfolding Pair by (cases x) (auto simp: bind_def successResponseWithPagination_def)
qed

lemma getAllBooks_result:
  assumes "getAllBooks usr q r = (res, r')"
  shows "rows r' = rows r \<and> (\<forall>resp. res = Inr resp \<longrightarrow> owned_by (id' usr) (payload resp))"
proof -
  note C = catch_result [OF assms [unfolded getAllBooks_def]]
  show ?thesis
  proof (cases "truthy (q_search q)")
    case True
    show ?thesis
      by (rule combine_result [OF C [unfolded if_P [OF True]]])
        (rule list_response_result, erule searchByTitleForUser_result)
  next
    case False
    note C1 = C [unfolded if_not_P [OF False]]
    show ?thesis
    proof (cases "truthy (q_author q)")
      case True
      show ?thesis
        by (rule combine_result [OF C1 [unfolded if_P [OF True]]])
          (rule list_response_result, erule findByAuthorForUser_result)
    next
      case False
      show ?thesis
        by (rule combine_result [OF C1 [unfolded if_not_P [OF False]]])
          (rule page_response_result, erule getPaginatedByUser_result)
    qed
  qed
qed

lemma getBookById_result:
  assumes "getBookById usr i r = (res, r')"
  shows "rows r' = rows r \<and> (\<forall>resp. res = Inr resp \<longrightarrow> userId (payload resp) = id' usr)"
proof -
  obtain x r1 where g: "findByIdAndUser i (id' usr) r = (x, r1)"
    by (cases "findByIdAndUser i (id' usr) r")
  from findByIdAndUser_result [OF g] have r1: "rows r1 = rows r"
    and own: "\<And>b. x = Inr (Some b) \<Longrightarrow> userId b = id' usr"
    by simp_all
  have "rows (snd (bind (findByIdAndUser i (id' usr) r)
          (\<lambda>found r'.
             case found of
               None \<Rightarrow> (Inl (throwErrorResponse ''Book not found'' 404), r')
             | Some b \<Rightarrow> (Inr (successResponse b ''Book retrieved successfully''), r')))) =
          rows r \<and>
        (\<forall>resp. fst (bind (findByIdAndUser i (id' usr) r)
          (\<lambda>found r'.
             case found of
               None \<Rightarrow> (Inl (throwErrorResponse ''Book not found'' 404), r')
             | Some b \<Rightarrow> (Inr (successResponse b ''Book retrieved successfully''), r'))) =
          Inr resp \<longrightarrow> userId (payload resp) = id' usr)"
  proof (cases x)
    case (Inl e)
    with r1 show ?thesis unfolding g by (simp add: bind_def)
  next
    case (Inr found)
    show ?thesis
    proof (cases found)
      case None
      with Inr r1 show ?thesis unfolding g by (simp add: bind_def)
    next
      case (Some b)
      with Inr own have "userId b = id' usr" by simp
      with Inr Some r1 show ?thesis
        unfolding g by (simp add: bind_def successResponse_def)
    qed
  qed
  with catch_result [OF assms [unfolded getBookById_def]] show ?thesis
    by (rule combine_result)
qed

lemma book_build_owner:
  "build Book n (bookData dto usr url) = Some b \<Longrightarrow> userId b = id' usr"
  by (auto simp: Book_def book_build_def bookData_def)

lemma createBook_rows:
  assumes "createBook m usr dto cover r = (res, r')"
  shows "(rows r' = rows r \<or> (\<exists>b. rows r' = rows r @ [b] \<and> userId b = id' usr)) \<and>
         (\<forall>resp. res = Inr resp \<longrightarrow> userId (payload resp) = id' usr)"
proof -
  let ?Q = "\<lambda>out. (rows (snd out) = rows r \<or>
                     (\<exists>b. rows (snd out) = rows r @ [b] \<and> userId b = id' usr)) \<and>
                   (\<forall>resp. fst out = Inr resp \<longrightarrow> userId (payload resp) = id' usr)"
  obtain te r1 where g: "titleExistsForUser (id' usr) (c_title dto) r = (te, r1)"
    by (cases "titleExistsForUser (id' usr) (c_title dto) r")
  from titleExistsForUser_result [OF g] have r1: "rows r1 = rows r" .
  have ins: "?Q (bind (create Book (bookData dto usr url) r1)
                   (\<lambda>b r2. (Inr (successResponse b ''Book created successfully''), r2)))" for url
  proof -
    obtain x r2 where c: "create Book (bookData dto usr url) r1 = (x, r2)"
      by (cases "create Book (bookData dto usr url) r1")
    show ?thesis
    proof (cases x)
      case (Inl e)
      with create_result [OF c] r1 show ?thesis
        unfolding c by (auto simp: bind_def)
    next
      case (Inr b)
      from create_Inr [OF c [unfolded Inr]] have "rows r2 = rows r1 @ [b]" "userId b = id' usr"
        using book_build_owner by blast+
      with r1 Inr show ?thesis
        unfolding c by (simp add: bind_def successResponse_def)
    qed
  qed
  have "?Q (bind (titleExistsForUser (id' usr) (c_title dto) r)
          (\<lambda>titleExists r1.
             if titleExists
             then (Inl (throwErrorResponse (duplicate_title (c_title dto)) 409), r1)
             else
               (case upload_cover m usr cover of
                  Inl e \<Rightarrow> (Inl e, r1)
                | Inr coverUrl \<Rightarrow>
                    bind (create Book (bookData dto usr coverUrl) r1)
                      (\<lambda>b r2. (Inr (successResponse b ''Book created successfully''), r2)))))"
  proof (cases te)
    case (Inl e)
    with r1 show ?thesis unfolding g by (simp add: bind_def)
  next
    case (Inr titleExists)
    show ?thesis
    proof (cases "titleExists \<or> isl (upload_cover m usr cover)")
      case True
      with Inr r1 show ?thesis
        unfolding g by (auto simp: bind_def isl_def)
    next
      case False
      then obtain url where "upload_cover m usr cover = Inr url"
        by (cases "upload_cover m usr cover") auto
      with False Inr ins [of url] show ?thesis
        unfolding g by (simp add: bind_def)
    qed
  qed
  with catch_result [OF assms [unfolded createBook_def]] show ?thesis
    by simp
qed

lemma deleteBook_rows:
  "rows (snd (deleteBook m usr i r)) = rows r \<or>
   (rows (snd (deleteBook m usr i r)) = filter (\<lambda>x. id' x \<noteq> i) (rows r) \<and>
    (\<exists>b \<in> set (rows r). id' b = i \<and> userId b = id' usr))"
  (is "?P (snd _)")
  unfolding deleteBook_def snd_rethrow
proof (rule bind_post)
  fix e r1
  assume "findByIdAndUser i (id' usr) r = (Inl e, r1)"
  from findByIdAndUser_result [OF this] show "?P r1" by simp
next
  fix found r1
  assume f: "findByIdAndUser i (id' usr) r = (Inr found, r1)"
  from findByIdAndUser_result [OF f] have r1: "rows r1 = rows r"
    and fb: "\<forall>b. found = Some b \<longrightarrow> b \<in> set (rows r) \<and> id' b = i \<and> userId b = id' usr"
    by simp_all
  show "?P (snd (case found of
                   None \<Rightarrow> (Inl (throwErrorResponse ''Book not found'' 404), r1)
                 | Some b \<Rightarrow>
                     (case cover_cleanup m usr b of
                        _ \<Rightarrow>
                          bind (delete Book i r1)
                            (\<lambda>_ r2. (Inr (successResponse () ''Book deleted successfully''), r2)))))"
  proof (cases found)
    case None
    with r1 show ?thesis by simp
  next
    case (Some b)
    with fb have ex: "\<exists>b \<in> set (rows r). id' b = i \<and> userId b = id' usr"
      by blast
    have "?P (snd (bind (delete Book i r1)
                     (\<lambda>_ r2. (Inr (successResponse () ''Book deleted successfully''), r2))))"
    proof (rule bind_post)
      fix e r2
      assume "delete Book i r1 = (Inl e, r2)"
      from delete_result [OF this] r1 ex show "?P r2" by auto
    next
      fix a r2
      assume "delete Book i r1 = (Inr a, r2)"
      from delete_result [OF this] r1 ex
      show "?P (snd (Inr (successResponse () ''Book deleted successfully''), r2))" by auto
    qed
    with Some show ?thesis by simp
  qed
qed

lemma only_owner_has_id:
  assumes "distinct (map id' xs)" and "b \<in> set xs" and "id' b = i" and "userId b = u"
    and "x \<in> set xs" and "id' x = i"
  shows "userId x = u"
proof -
  from assms(1) have "inj_on id' (set xs)"
    by (simp add: distinct_map)
  with assms(2,3,5,6) have "x = b"
    by (auto dest: inj_onD)
  with assms(4) show ?thesis by simp
qed

lemma others_after_update:
  assumes "distinct (map id' xs)" and "\<exists>b \<in> set xs. id' b = i \<and> userId b = u"
    and "\<And>x. userId (g x) = userId x"
  shows "filter (\<lambda>b. userId b \<noteq> u) (map (\<lambda>x. if id' x = i then g x else x) xs) =
         filter (\<lambda>b. userId b \<noteq> u) xs"
proof -
  have own: "userId x = u" if "x \<in> set xs" "id' x = i" for x
    using assms(1,2) that only_owner_has_id by blast
  have "filter (\<lambda>b. userId b \<noteq> u) (map (\<lambda>x. if id' x = i then g x else x) ys) =
        filter (\<lambda>b. userId b \<noteq> u) ys" if "set ys \<subseteq> set xs" for ys
    using that by (induction ys) (auto simp: own assms(3))
  then show ?thesis by simp
qed

lemma others_after_delete:
  assumes "distinct (map id' xs)" and "\<exists>b \<in> set xs. id' b = i \<and> userId b = u"
  shows "filter (\<lambda>b. userId b \<noteq> u) (filter (\<lambda>x. id' x \<noteq> i) xs) =
         filter (\<lambda>b. userId b \<noteq> u) xs"
proof -
  have own: "userId x = u" if "x \<in> set xs" "id' x = i" for x
    using assms(1,2) that only_owner_has_id by blast
  have "filter (\<lambda>b. userId b \<noteq> u) (filter (\<lambda>x. id' x \<noteq> i) ys) =
        filter (\<lambda>b. userId b \<noteq> u) ys" if "set ys \<subseteq> set xs" for ys
    using that by (induction ys) (auto simp: own)
  then show ?thesis by simp
qed

lemma updateBook_others:
  assumes "distinct (map id' (rows r))"
  shows "others_untouched (id' usr) r (snd (updateBook usr i dto r))"
proof -
  from updateBook_rows [of usr i dto r] show ?thesis
  proof
    assume "rows (snd (updateBook usr i dto r)) = rows r"
    then show ?thesis by (simp add: others_untouched_def)
  next
    assume a: "rows (snd (updateBook usr i dto r)) =
        map (\<lambda>x. if id' x = i then book_assign (dto\<lparr>d_userId := None\<rparr>) x else x) (rows r) \<and>
        (\<exists>b \<in> set (rows r). id' b = i \<and> userId b = id' usr)"
    from others_after_update [OF assms a [THEN conjunct2],
        of "book_assign (dto\<lparr>d_userId := None\<rparr>)", OF book_assign_keeps(1)]
    show ?thesis
      unfolding others_untouched_def a [THEN conjunct1] .
  qed
qed

lemma deleteBook_others:
  assumes "distinct (map id' (rows r))"
  shows "others_untouched (id' usr) r (snd (deleteBook m usr i r))"
proof -
  from deleteBook_rows [of m usr i r] show ?thesis
  proof
    assume "rows (snd (deleteBook m usr i r)) = rows r"
    then show ?thesis by (simp add: others_untouched_def)
  next
    assume a: "rows (snd (deleteBook m usr i r)) = filter (\<lambda>x. id' x \<noteq> i) (rows r) \<and>
        (\<exists>b \<in> set (rows r). id' b = i \<and> userId b = id' usr)"
    from others_after_delete [OF assms a [THEN conjunct2]]
    show ?thesis
      unfolding others_untouched_def a [THEN conjunct1] .
  qed
qed

lemma apply_update_payload:
  assumes "apply_update usr i dto r = (Inr resp, r')" and "payload resp = Some b"
  shows "userId b = id' usr"
proof -
  from bind_Inr [OF assms(1) [unfolded apply_update_def Let_def]] obtain n r3 where
    "bind (findByIdAndUser i (id' usr) r3)
       (\<lambda>updatedBook r4.
          (Inr (successResponse updatedBook ''Book updated successfully''), r4)) = (Inr resp, r')"
    by blast
  from bind_Inr [OF this] obtain ub r4 where
    f: "findByIdAndUser i (id' usr) r3 = (Inr ub, r4)" and
    "resp = successResponse ub ''Book updated successfully''"
    by auto
  with assms(2) have "ub = Some b"
    by (simp add: successResponse_def)
  with findByIdAndUser_result [OF f] show ?thesis
    by simp
qed

lemma updateBook_payload:
  assumes "updateBook usr i dto r = (Inr resp, r')" and "payload resp = Some b"
  shows "userId b = id' usr"
proof -
  note F = catch_result [OF assms(1) [unfolded updateBook_def], THEN conjunct2, rule_format,
      OF refl, THEN fst_Inr_pair]
  from bind_Inr [OF F] obtain found r1 r0 where
    k: "(case found of
           None \<Rightarrow> (Inl (throwErrorResponse ''Book not found'' 404), r1)
         | Some existingBook \<Rightarrow>
             bind (check_title usr dto existingBook r1)
               (\<lambda>_ r2. apply_update usr i dto r2)) = (Inr resp, r0)"
    by blast
  then obtain eb where
    "bind (check_title usr dto eb r1) (\<lambda>_ r2. apply_update usr i dto r2) = (Inr resp, r0)"
    by (cases found) simp_all
  from bind_Inr [OF this] obtain r2 where "apply_update usr i dto r2 = (Inr resp, r0)"
    by blast
  from apply_update_payload [OF this assms(2)] show ?thesis .
qed

lemma createBook_others: "others_untouched (id' usr) r (snd (createBook m usr dto cover r))"
  using createBook_rows [OF surjective_pairing, of m usr dto cover r, THEN conjunct1]
  by (auto simp: others_untouched_def)

lemma book_match_user: "matches (column Book) [Eq ''userId'' (IntV u)] b \<longleftrightarrow> userId b = u"
  by (simp add: matches_def Book_def book_column_def)

lemma deleteAllByUser_others: "others_untouched u r (snd (deleteAllByUser u r))"
  by (cases rule: storage_call_cases [of "''delete''" "[Eq ''userId'' (IntV u)]" r])
    (simp_all add: deleteAllByUser_def deleteByField_def repo_delete_def others_untouched_def
      book_match_user)

text \<open>
  C7, as the code has it. The methods of \<open>BooksService\<close> that take the owner return only that
  owner's books (\<open>findByUser\<close>, \<open>findByIdAndUser\<close>, \<open>searchByTitleForUser\<close>,
  \<open>findByAuthorForUser\<close>, \<open>findByYearForUser\<close>, \<open>getPaginatedByUser\<close>) and \<open>deleteAllByUser\<close>
  removes no other owner's row. Every endpoint of \<open>BooksController\<close> is scoped to the
  authenticated user: \<open>getAllBooks\<close> and \<open>getBookById\<close> return only that user's books and
  change no row; \<open>createBook\<close> stores the book under that user; \<open>createBook\<close>, \<open>updateBook\<close>
  and \<open>deleteBook\<close> leave the rows of every other owner as they were, ids being unique in the
  table. The methods that take no owner are left out: they are not scoped.
\<close>

theorem owner_scoped:
  assumes "distinct (map id' (rows r))"
  shows "(\<forall>bs. fst (findByUser u r) = Inr bs \<longrightarrow> owned_by u bs) \<and>
    (\<forall>b. fst (findByIdAndUser i u r) = Inr (Some b) \<longrightarrow> userId b = u) \<and>
    (\<forall>bs. fst (searchByTitleForUser u t r) = Inr bs \<longrightarrow> owned_by u bs) \<and>
    (\<forall>bs. fst (findByAuthorForUser u a r) = Inr bs \<longrightarrow> owned_by u bs) \<and>
    (\<forall>bs. fst (findByYearForUser u y r) = Inr bs \<longrightarrow> owned_by u bs) \<and>
    (\<forall>p. fst (getPaginatedByUser u popts fopts r) = Inr p \<longrightarrow> owned_by u (data p)) \<and>
    others_untouched u r (snd (deleteAllByUser u r)) \<and>
    (\<forall>resp. fst (getAllBooks usr q r) = Inr resp \<longrightarrow> owned_by (id' usr) (payload resp)) \<and>
    rows (snd (getAllBooks usr q r)) = rows r \<and>
    (\<forall>resp. fst (getBookById usr i r) = Inr resp \<longrightarrow> userId (payload resp) = id' usr) \<and>
    rows (snd (getBookById usr i r)) = rows r \<and>
    (\<forall>resp. fst (createBook m usr cdto cover r) = Inr resp \<longrightarrow>
       userId (payload resp) = id' usr) \<and>
    others_untouched (id' usr) r (snd (createBook m usr cdto cover r)) \<and>
    (\<forall>resp b. fst (updateBook usr i dto r) = Inr resp \<and> payload resp = Some b \<longrightarrow>
       userId b = id' usr) \<and>
    others_untouched (id' usr) r (snd (updateBook usr i dto r)) \<and>
    others_untouched (id' usr) r (snd (deleteBook m usr i r))"
proof -
  have f: "\<forall>b. fst (findByIdAndUser i u r) = Inr (Some b) \<longrightarrow> userId b = u"
    using findByIdAndUser_result [OF surjective_pairing, of i u r] by blast
  have p: "\<forall>resp b. fst (updateBook usr i dto r) = Inr resp \<and> payload resp = Some b \<longrightarrow>
       userId b = id' usr"
  proof (intro allI impI, elim conjE)
    fix resp b
    assume "fst (updateBook usr i dto r) = Inr resp" and s: "payload resp = Some b"
    then have "updateBook usr i dto r = (Inr resp, snd (updateBook usr i dto r))"
      by (simp add: fst_Inr_pair)
    from updateBook_payload [OF this s] show "userId b = id' usr" .
  qed
  show ?thesis
    apply (intro conjI)
    subgoal by (rule findByUser_result [OF surjective_pairing, THEN conjunct2])
    subgoal by (rule f)
    subgoal by (rule searchByTitleForUser_result [OF surjective_pairing, THEN conjunct2])
    subgoal by (rule findByAuthorForUser_result [OF surjective_pairing, THEN conjunct2])
    subgoal by (rule findByYearForUser_result [OF surjective_pairing, THEN conjunct2])
    subgoal by (rule getPaginatedByUser_result [OF surjective_pairing, THEN conjunct2])
    subgoal by (rule deleteAllByUser_others)
    subgoal by (rule getAllBooks_result [OF surjective_pairing, THEN conjunct2])
    subgoal by (rule getAllBooks_result [OF surjective_pairing, THEN conjunct1])
    subgoal by (rule getBookById_result [OF surjective_pairing, THEN conjunct2])
    subgoal by (rule getBookById_result [OF surjective_pairing, THEN conjunct1])
    subgoal by (rule createBook_rows [OF surjective_pairing, THEN conjunct2])
    subgoal by (rule createBook_others)
    subgoal by (rule p)
    subgoal by (rule updateBook_others [OF assms])
    subgoal by (rule deleteBook_others [OF assms])
    done
qed

theorem owner_scoped_witness:
  "distinct (map id' (rows shelf)) \<and>
   fst (searchByTitleForUser 2 ''gat'' shelf) = Inr [gatsby2] \<and>
   owned_by 2 [gatsby2] \<and>
   fst (getBookById bob 2 shelf) = Inr (successResponse gatsby2 ''Book retrieved successfully'') \<and>
   userId (payload (successResponse gatsby2 ''Book retrieved successfully'')) = id' bob \<and>
   fst (getBookById bob 1 shelf) = Inl (HttpException 404 ''Book not found'') \<and>
   others_untouched (id' alice) shelf (snd (updateBook alice 3 hijack_dto shelf)) \<and>
   others_untouched (id' alice) shelf (snd (deleteBook test_minio alice 3 shelf)) \<and>
   rows (snd (deleteBook test_minio bob 3 shelf)) = rows shelf"
proof -
  have h: "distinct (map id' (rows shelf))"
    by code_simp
  note t = owner_scoped [OF h]
  have s: "fst (searchByTitleForUser 2 ''gat'' shelf) = Inr [gatsby2]"
    by code_simp
  have so: "owned_by 2 [gatsby2]"
    by (rule t [where u = 2 and t = "''gat''", THEN conjunct2, THEN conjunct2, THEN conjunct1,
          rule_format, OF s])
  have g: "fst (getBookById bob 2 shelf) =
             Inr (successResponse gatsby2 ''Book retrieved successfully'')"
    by code_simp
  have go: "userId (payload (successResponse gatsby2 ''Book retrieved successfully'')) = id' bob"
    by (rule t [where usr = bob and i = 2, THEN conjunct2, THEN conjunct2, THEN conjunct2,
          THEN conjunct2, THEN conjunct2, THEN conjunct2, THEN conjunct2, THEN conjunct2,
          THEN conjunct2, THEN conjunct1, rule_format, OF g])
  have n: "fst (getBookById bob 1 shelf) = Inl (HttpException 404 ''Book not found'')"
    by code_simp
  have uo: "others_untouched (id' alice) shelf (snd (updateBook alice 3 hijack_dto shelf))"
    by (rule t [where usr = alice and i = 3 and dto = hijack_dto, THEN conjunct2, THEN conjunct2,
          THEN conjunct2, THEN conjunct2, THEN conjunct2, THEN conjunct2, THEN conjunct2,
          THEN conjunct2, THEN conjunct2, THEN conjunct2, THEN conjunct2, THEN conjunct2,
          THEN conjunct2, THEN conjunct2, THEN conjunct1])
  have do: "others_untouched (id' alice) shelf (snd (deleteBook test_minio alice 3 shelf))"
    by (rule t [where usr = alice and i = 3 and m = test_minio, THEN conjunct2, THEN conjunct2,
          THEN conjunct2, THEN conjunct2, THEN conjunct2, THEN conjunct2, THEN conjunct2,
          THEN conjunct2, THEN conjunct2, THEN conjunct2, THEN conjunct2, THEN conjunct2,
          THEN conjunct2, THEN conjunct2, THEN conjunct2])
  have dn: "rows (snd (deleteBook test_minio bob 3 shelf)) = rows shelf"
    by code_simp
  show ?thesis
    by (intro conjI) (rule h, rule s, rule so, rule g, rule go, rule n, rule uo, rule do, rule dn)
qed

text \<open>
  C7 as stated fails: \<open>BooksService\<close> also exposes searches that take no owner, and they
  return the books of every owner.
\<close>

theorem searchByTitle_crosses_owners:
  "fst (searchByTitle ''gat'' shelf) = Inr [gatsby1, gatsby2] \<and>
   fst (searchByAuthor ''fitz'' shelf) = Inr [gatsby1, gatsby2] \<and>
   fst (findByAuthor ''F. Scott Fitzgerald'' shelf) = Inr [gatsby1, gatsby2] \<and>
   map userId [gatsby1, gatsby2] = [1, 2]"
  by code_simp

end
